theory Spec2Isabelle
  imports Main "HOL-Library.Sublist"
begin

section \<open>Go strings and the functions of package \<open>strings\<close> that the program calls\<close>

text \<open>
  A Go string is modelled as the list of its Unicode code points (Go's \<open>rune\<close> is \<open>int32\<close>,
  here \<open>int\<close>).  The strings that the functions below are applied to are completions
  decoded from JSON and lines of text read from the terminal, taken to be valid UTF-8; on
  valid UTF-8 the functions of package \<open>strings\<close> used here, whose separators and cut sets
  are ASCII, act on the sequence of runes as defined below.  A string literal of the source
  is written \<open>str ''...''\<close>.
\<close>

type_synonym rune = int
type_synonym gostring = "rune list"

abbreviation str :: "string \<Rightarrow> gostring" where
  "str \<equiv> map of_char"

text \<open>\<open>unicode.IsSpace\<close>: the code points with the Unicode property White_Space.\<close>

definition isSpace :: "rune \<Rightarrow> bool" where
  "isSpace r \<longleftrightarrow>
     (0x09 \<le> r \<and> r \<le> 0x0D) \<or> r = 0x20 \<or> r = 0x85 \<or> r = 0xA0 \<or> r = 0x1680 \<or>
     (0x2000 \<le> r \<and> r \<le> 0x200A) \<or> r = 0x2028 \<or> r = 0x2029 \<or> r = 0x202F \<or>
     r = 0x205F \<or> r = 0x3000"

text \<open>\<open>strings.TrimSpace\<close>: leading white space is dropped, then trailing white space.\<close>

definition TrimSpace :: "gostring \<Rightarrow> gostring" where
  "TrimSpace s = rev (dropWhile isSpace (rev (dropWhile isSpace s)))"

text \<open>\<open>strings.Trim(s, cutset)\<close>: leading and trailing runes of the cut set are dropped.\<close>

definition Trim :: "gostring \<Rightarrow> gostring \<Rightarrow> gostring" where
  "Trim s cutset =
     rev (dropWhile (\<lambda>r. r \<in> set cutset) (rev (dropWhile (\<lambda>r. r \<in> set cutset) s)))"

definition HasPrefix :: "gostring \<Rightarrow> gostring \<Rightarrow> bool" where
  "HasPrefix s pre \<longleftrightarrow> prefix pre s"

text \<open>\<open>strings.Contains(s, substr)\<close>: \<open>substr\<close> occurs in \<open>s\<close> as a contiguous block.\<close>

definition Contains :: "gostring \<Rightarrow> gostring \<Rightarrow> bool" where
  "Contains s substr \<longleftrightarrow> sublist substr s"

text \<open>
  \<open>strings.Split(s, sep)\<close>: the pieces of \<open>s\<close> between the occurrences of \<open>sep\<close>, found from
  the left and not overlapping; with an empty separator the string is split into its runes.
\<close>

function Split :: "gostring \<Rightarrow> gostring \<Rightarrow> gostring list" where
  "Split s sep =
     (if sep = [] then map (\<lambda>r. [r]) s
      else if s = [] then [[]]
      else if prefix sep s then [] # Split (drop (length sep) s) sep
      else (let rest = Split (tl s) sep in (hd s # hd rest) # tl rest))"
  by pat_completeness auto
termination
  by (relation "measure (\<lambda>(s, sep). length s)") (auto simp: neq_Nil_conv)

declare Split.simps [simp del]

text \<open>\<open>strings.Join(elems, sep)\<close>.\<close>

fun Join :: "gostring list \<Rightarrow> gostring \<Rightarrow> gostring" where
  "Join [] sep = []"
| "Join [e] sep = e"
| "Join (e # f # elems) sep = e @ sep @ Join (f # elems) sep"

text \<open>
  \<open>strings.ReplaceAll(s, old, new)\<close>: the occurrences of \<open>old\<close>, found from the left and not
  overlapping, are replaced; an empty \<open>old\<close> matches before every rune and at the end.
\<close>

function ReplaceAll :: "gostring \<Rightarrow> gostring \<Rightarrow> gostring \<Rightarrow> gostring" where
  "ReplaceAll s old new =
     (if old = [] then new @ concat (map (\<lambda>r. r # new) s)
      else if s = [] then []
      else if prefix old s then new @ ReplaceAll (drop (length old) s) old new
      else hd s # ReplaceAll (tl s) old new)"
  by pat_completeness auto
termination
  by (relation "measure (\<lambda>(s, old, new). length s)") (auto simp: neq_Nil_conv)

declare ReplaceAll.simps [simp del]

section \<open>Package generator: cleaning a completion (\<open>stripCodeBlock\<close>)\<close>

text \<open>
  The loop \<open>for i := len(lines) - 1; i >= 0; i--\<close> of \<open>stripCodeBlock\<close>.  The counter of
  \<open>closingMarkerLoop\<close> is \<open>i + 1\<close>: at \<open>Suc i\<close> line \<open>i\<close> is tested, at \<open>0\<close> the loop has ended
  without finding a closing marker and the lines are unchanged.
\<close>

fun closingMarkerLoop :: "gostring list \<Rightarrow> nat \<Rightarrow> gostring list" where
  "closingMarkerLoop lines 0 = lines"
| "closingMarkerLoop lines (Suc i) =
     (if TrimSpace (lines ! i) = str ''```'' then take i lines
      else closingMarkerLoop lines i)"

definition stripCodeBlock :: "gostring \<Rightarrow> gostring" where
  "stripCodeBlock code0 =
     (let code = TrimSpace code0 in
      if HasPrefix code (str ''```'') then
        (let lines = Split code (str ''\<newline>'') in
         if length lines \<le> 1 then []
         else
           (let lines = tl lines;
                lines = closingMarkerLoop lines (length lines);
                code = Join lines (str ''\<newline>'')
            in TrimSpace code))
      else TrimSpace code)"

section \<open>Package ai: the completion client\<close>

text \<open>
  The remote chat-completion call is the environment's: \<open>api_response\<close> is what
  \<open>CreateChatCompletion\<close> returned, either an error or the contents of the choices of the
  response.  The prompt that the callers build only influences this answer.
\<close>

datatype api_response = ApiError | Choices "gostring list"

datatype ai_error =
    CompletionFailed    \<comment> \<open>\<open>failed to generate completion: ...\<close>\<close>
  | NoChoices           \<comment> \<open>\<open>no completion choices returned\<close>\<close>

fun GenerateCompletion :: "api_response \<Rightarrow> ai_error + gostring" where
  "GenerateCompletion ApiError = Inl CompletionFailed"
| "GenerateCompletion (Choices []) = Inl NoChoices"
| "GenerateCompletion (Choices (content # _)) = Inr content"

section \<open>Package generator: the generators\<close>

datatype gen_error =
    AIError ai_error          \<comment> \<open>the error of \<open>GenerateCompletion\<close>, returned as it is\<close>
  | InvalidResponseFormat     \<comment> \<open>\<open>invalid response format from AI\<close>\<close>
  | ExtractionFailed          \<comment> \<open>\<open>failed to extract implementation or test code\<close>\<close>

text \<open>
  \<open>GenerateTests\<close>, \<open>GenerateImplementation\<close> and \<open>FixImplementation\<close> differ only in their
  prompts: each returns the completion's error, or the cleaned completion with no error.
\<close>

definition GenerateTests :: "api_response \<Rightarrow> gen_error + gostring" where
  "GenerateTests resp =
     (case GenerateCompletion resp of
        Inl err \<Rightarrow> Inl (AIError err)
      | Inr code \<Rightarrow> Inr (stripCodeBlock code))"

definition GenerateImplementation :: "api_response \<Rightarrow> gen_error + gostring" where
  "GenerateImplementation resp =
     (case GenerateCompletion resp of
        Inl err \<Rightarrow> Inl (AIError err)
      | Inr code \<Rightarrow> Inr (stripCodeBlock code))"

definition FixImplementation :: "api_response \<Rightarrow> gen_error + gostring" where
  "FixImplementation resp =
     (case GenerateCompletion resp of
        Inl err \<Rightarrow> Inl (AIError err)
      | Inr code \<Rightarrow> Inr (stripCodeBlock code))"

subsection \<open>\<open>GenerateDirectoryName\<close>\<close>

text \<open>
  \<open>strings.ToLower\<close> maps \<open>unicode.ToLower\<close> over the runes.  On ASCII that is the shift of
  \<open>A\<close>..\<open>Z\<close>; the case table of the other code points is the parameter \<open>lowerTable\<close>.
\<close>

definition ToLower :: "(rune \<Rightarrow> rune) \<Rightarrow> gostring \<Rightarrow> gostring" where
  "ToLower lowerTable s =
     map (\<lambda>r. if 65 \<le> r \<and> r \<le> 90 then r + 32 else if r < 128 then r else lowerTable r) s"

text \<open>The function given to \<open>strings.Map\<close>: \<open>a\<close>..\<open>z\<close>, \<open>0\<close>..\<open>9\<close> and \<open>-\<close> are kept.\<close>

definition validOrHyphen :: "rune \<Rightarrow> rune" where
  "validOrHyphen r =
     (if (97 \<le> r \<and> r \<le> 122) \<or> (48 \<le> r \<and> r \<le> 57) \<or> r = 45 then r else 45)"

text \<open>The loop \<open>for strings.Contains(name, "--") { name = strings.ReplaceAll(name, "--", "-") }\<close>.\<close>

function removeConsecutiveHyphens :: "gostring \<Rightarrow> gostring" where
  "removeConsecutiveHyphens name =
     (if Contains name (str ''--'')
      then removeConsecutiveHyphens (ReplaceAll name (str ''--'') (str ''-''))
      else name)"
  by pat_completeness auto
termination
proof (relation "measure length")
  show "wf (measure length)" by simp
next
  fix name :: gostring
  assume c: "Contains name (str ''--'')"
  have hit: "ReplaceAll (45 # 45 # r) [45, 45] [45] = 45 # ReplaceAll r [45, 45] [45]"
    for r :: gostring
    by (subst ReplaceAll.simps) simp
  have miss: "ReplaceAll (x # xs) [45, 45] [45] = x # ReplaceAll xs [45, 45] [45]"
    if "\<not> prefix [45, 45] (x # xs)" for x and xs :: gostring
    using that by (subst ReplaceAll.simps) auto
  have le: "length (ReplaceAll s [45, 45] [45]) \<le> length s" for s :: gostring
  proof (induction s rule: length_induct)
    case (1 s)
    show ?case
    proof (cases s)
      case Nil
      then show ?thesis by (simp add: ReplaceAll.simps)
    next
      case (Cons x xs)
      show ?thesis
      proof (cases "prefix [45, 45] s")
        case True
        then obtain r where r: "s = 45 # 45 # r" by (auto simp: prefix_def)
        with 1 have "length (ReplaceAll r [45, 45] [45]) \<le> length r" by simp
        with r show ?thesis by (simp add: hit)
      next
        case False
        from 1 Cons have "length (ReplaceAll xs [45, 45] [45]) \<le> length xs" by simp
        with False Cons show ?thesis by (simp add: miss)
      qed
    qed
  qed
  have lt: "length (ReplaceAll s [45, 45] [45]) < length s"
    if "sublist [45, 45] s" for s :: gostring
    using that
  proof (induction s)
    case Nil
    then show ?case by simp
  next
    case (Cons x xs)
    show ?case
    proof (cases "prefix [45, 45] (x # xs)")
      case True
      then obtain r where r: "x # xs = 45 # 45 # r" by (auto simp: prefix_def)
      have "length (ReplaceAll r [45, 45] [45]) \<le> length r" by (rule le)
      with r show ?thesis by (simp add: hit)
    next
      case False
      with Cons.prems have "sublist [45, 45] xs" by (auto simp: sublist_Cons_right)
      with Cons.IH have "length (ReplaceAll xs [45, 45] [45]) < length xs" by simp
      with False show ?thesis by (simp add: miss)
    qed
  qed
  from c show "(ReplaceAll name (str ''--'') (str ''-''), name) \<in> measure length"
    using lt [of name] by (simp add: Contains_def)
qed

declare removeConsecutiveHyphens.simps [simp del]

text \<open>
  The cleaning of the generated name up to \<open>strings.Trim(name, "-")\<close>, and the last step,
  which prepends \<open>fn-\<close> when the name is not empty and its first byte is not a letter.
\<close>

definition sanitizeDirectoryName :: "(rune \<Rightarrow> rune) \<Rightarrow> gostring \<Rightarrow> gostring" where
  "sanitizeDirectoryName lowerTable name0 =
     (let name = stripCodeBlock name0;
          name = ToLower lowerTable (TrimSpace name);
          name = map validOrHyphen name;
          name = removeConsecutiveHyphens name
      in Trim name (str ''-''))"

definition ensureStartsWithLetter :: "gostring \<Rightarrow> gostring" where
  "ensureStartsWithLetter name =
     (if length name > 0 \<and> \<not> (97 \<le> name ! 0 \<and> name ! 0 \<le> 122)
      then str ''fn-'' @ name else name)"

definition GenerateDirectoryName :: "(rune \<Rightarrow> rune) \<Rightarrow> api_response \<Rightarrow> gen_error + gostring" where
  "GenerateDirectoryName lowerTable resp =
     (case GenerateCompletion resp of
        Inl err \<Rightarrow> Inl (AIError err)
      | Inr name \<Rightarrow> Inr (ensureStartsWithLetter (sanitizeDirectoryName lowerTable name)))"

subsection \<open>\<open>FixBoth\<close>\<close>

record FixResult =
  TestCode :: gostring
  Code :: gostring

text \<open>
  The loop \<open>for i, part := range parts\<close> of \<open>FixBoth\<close>.  The list argument is \<open>parts[i:]\<close>,
  so \<open>i+1 < len(parts)\<close> reads \<open>rest \<noteq> []\<close> and \<open>parts[i+1]\<close> is \<open>hd rest\<close>; the pair is
  the current value of the variables \<open>implementation\<close> and \<open>tests\<close>.
\<close>

fun partsLoop :: "gostring list \<Rightarrow> gostring \<times> gostring \<Rightarrow> gostring \<times> gostring" where
  "partsLoop [] (implementation, tests) = (implementation, tests)"
| "partsLoop (part0 # rest) (implementation, tests) =
     (let part = TrimSpace part0 in
      if part = str ''IMPLEMENTATION'' then
        partsLoop rest
          (if rest \<noteq> [] then stripCodeBlock (hd rest) else implementation, tests)
      else if part = str ''TESTS'' then
        partsLoop rest
          (implementation, if rest \<noteq> [] then stripCodeBlock (hd rest) else tests)
      else partsLoop rest (implementation, tests))"

text \<open>The part of \<open>FixBoth\<close> after the completion call: parsing the response.\<close>

definition parseFixResponse :: "gostring \<Rightarrow> gen_error + FixResult" where
  "parseFixResponse response =
     (let parts = Split response (str ''---'') in
      if length parts < 5 then Inl InvalidResponseFormat
      else
        (let (implementation, tests) = partsLoop parts ([], []) in
         if implementation = [] \<or> tests = [] then Inl ExtractionFailed
         else Inr \<lparr>TestCode = tests, Code = implementation\<rparr>))"

definition FixBoth :: "api_response \<Rightarrow> gen_error + FixResult" where
  "FixBoth resp =
     (case GenerateCompletion resp of
        Inl err \<Rightarrow> Inl (AIError err)
      | Inr response \<Rightarrow> parseFixResponse response)"

text \<open>
  A response has a section for a marker when a part that trims to the marker is followed by a
  part that cleans to non-empty text.
\<close>

fun hasSection :: "gostring list \<Rightarrow> gostring \<Rightarrow> bool" where
  "hasSection (part # next # rest) marker \<longleftrightarrow>
     (TrimSpace part = marker \<and> stripCodeBlock next \<noteq> []) \<or> hasSection (next # rest) marker"
| "hasSection _ marker \<longleftrightarrow> False"

section \<open>Package storage: sessions and iterations\<close>

text \<open>
  A \<open>time.Time\<close> is an opaque reading of the clock.  The fields \<open>TestCode\<close>, \<open>Code\<close> and
  \<open>Success\<close> of \<open>Iteration\<close> carry the suffix \<open>_it\<close>, the names being taken by \<open>FixResult\<close>
  and \<open>TestResult\<close>.
\<close>

type_synonym time = nat

record Iteration =
  Number :: int
  TestCode_it :: gostring
  Code_it :: gostring
  TestLogs :: gostring
  Success_it :: bool
  Timestamp :: time

record Session =
  ID :: gostring
  Description :: gostring
  Language :: gostring
  Iterations :: "Iteration list"
  CreatedAt :: time
  UpdatedAt :: time

text \<open>
  The storage directory: for a session identifier, the content of
  \<open>baseDir/<id>/session.json\<close>, if the file exists.  \<open>encoding/json\<close> is taken as a faithful
  codec, so a completely written file is the session it encodes (\<open>Whole\<close>); a write that
  failed after the file was truncated leaves text that does not parse (\<open>Partial\<close>).
\<close>

datatype session_file = Whole Session | Partial

type_synonym filesystem = "gostring \<rightharpoonup> session_file"

datatype store_error =
    CreateDirFailed     \<comment> \<open>\<open>failed to create session directory\<close>\<close>
  | ReadFailed          \<comment> \<open>\<open>failed to read session\<close>\<close>
  | ParseFailed         \<comment> \<open>\<open>failed to parse session data\<close>\<close>
  | SaveFailed          \<comment> \<open>\<open>failed to save session data\<close>\<close>

text \<open>
  What the operating system and the clock answer during one call of the storage: whether
  \<open>os.MkdirAll\<close> and \<open>os.ReadFile\<close> succeed (given the file exists), how \<open>os.WriteFile\<close> ends,
  and the two readings of \<open>time.Now()\<close>.
\<close>

datatype write_outcome = Written | Refused | Truncated

record io_env =
  mkdir_ok :: bool
  read_ok :: bool
  write_out :: write_outcome
  now1 :: time
  now2 :: time

text \<open>A Go \<open>error\<close> result is an option: \<open>None\<close> is \<open>nil\<close>.\<close>

definition saveSession :: "filesystem \<Rightarrow> io_env \<Rightarrow> Session \<Rightarrow> filesystem \<times> store_error option" where
  "saveSession fs env session =
     (case write_out env of
        Written \<Rightarrow> (fs(ID session \<mapsto> Whole session), None)
      | Refused \<Rightarrow> (fs, Some SaveFailed)
      | Truncated \<Rightarrow> (fs(ID session \<mapsto> Partial), Some SaveFailed))"

definition GetSession :: "filesystem \<Rightarrow> io_env \<Rightarrow> gostring \<Rightarrow> store_error + Session" where
  "GetSession fs env sessionID =
     (if \<not> read_ok env then Inl ReadFailed
      else case fs sessionID of
             None \<Rightarrow> Inl ReadFailed
           | Some Partial \<Rightarrow> Inl ParseFailed
           | Some (Whole session) \<Rightarrow> Inr session)"

text \<open>\<open>CreateSession\<close>; \<open>uuid\<close> is the value of \<open>uuid.New().String()\<close>.\<close>

definition CreateSession ::
  "filesystem \<Rightarrow> io_env \<Rightarrow> gostring \<Rightarrow> gostring \<Rightarrow> gostring \<Rightarrow> filesystem \<times> (store_error + Session)" where
  "CreateSession fs env uuid description language =
     (let session = \<lparr>ID = uuid, Description = description, Language = language,
                      Iterations = [], CreatedAt = now1 env, UpdatedAt = now2 env\<rparr>
      in if \<not> mkdir_ok env then (fs, Inl CreateDirFailed)
         else case saveSession fs env session of
                (fs', Some err) \<Rightarrow> (fs', Inl err)
              | (fs', None) \<Rightarrow> (fs', Inr session))"

definition AddIteration ::
  "filesystem \<Rightarrow> io_env \<Rightarrow> gostring \<Rightarrow> gostring \<Rightarrow> gostring \<Rightarrow> gostring \<Rightarrow> bool
     \<Rightarrow> filesystem \<times> store_error option" where
  "AddIteration fs env sessionID testCode code testLogs success =
     (case GetSession fs env sessionID of
        Inl err \<Rightarrow> (fs, Some err)
      | Inr session \<Rightarrow>
          (let iteration = \<lparr>Number = int (length (Iterations session)) + 1,
                            TestCode_it = testCode, Code_it = code, TestLogs = testLogs,
                            Success_it = success, Timestamp = now1 env\<rparr>;
               session = session\<lparr>Iterations := Iterations session @ [iteration]\<rparr>;
               session = session\<lparr>UpdatedAt := now2 env\<rparr>
           in saveSession fs env session))"

subsection \<open>Histories of calls\<close>

text \<open>
  A history of the storage is a list of calls of \<open>CreateSession\<close> and \<open>AddIteration\<close>, each with
  its arguments and with what the environment answers; running it from the empty directory
  yields the final directory and the log of the calls with their error results.
\<close>

datatype store_call =
    CallCreate io_env gostring gostring gostring
  | CallAdd io_env gostring gostring gostring gostring bool


type_synonym store_log = "(store_call \<times> store_error option) list"




text \<open>
  The arguments of the calls of \<open>AddIteration\<close> for a session that returned no error, in call
  order.
\<close>

fun added_to :: "store_log \<Rightarrow> gostring \<Rightarrow> (gostring \<times> gostring \<times> gostring \<times> bool) list" where
  "added_to [] sid = []"
| "added_to ((CallAdd env sessionID testCode code testLogs success, None) # log) sid =
     (if sessionID = sid then (testCode, code, testLogs, success) # added_to log sid
      else added_to log sid)"
| "added_to (_ # log) sid = added_to log sid"



text \<open>A history used as an example: the third call fails to write, the fourth names no session.\<close>

definition demo_env :: "write_outcome \<Rightarrow> io_env" where
  "demo_env w = \<lparr>mkdir_ok = True, read_ok = True, write_out = w, now1 = 7, now2 = 8\<rparr>"




section \<open>Package executor: the test runner\<close>

record TestResult =
  Success :: bool
  Output :: gostring

text \<open>
  A command is the program, its arguments and its working directory.  What running it does
  is the environment's: the process could not be started (missing toolchain, invalid
  working directory), or it ran and exited with a status, having written to its standard
  output and standard error.
\<close>

type_synonym command = "gostring \<times> gostring list \<times> gostring"

datatype process_outcome = StartFailed | Exited int gostring gostring

datatype exec_error = StartError | ExitError int

text \<open>
  \<open>cmd.Run()\<close> with \<open>Stdout\<close> and \<open>Stderr\<close> set to two buffers: the error (\<open>None\<close> is \<open>nil\<close>)
  and the contents of the buffers.
\<close>

fun cmdRun :: "process_outcome \<Rightarrow> exec_error option \<times> gostring \<times> gostring" where
  "cmdRun StartFailed = (Some StartError, [], [])"
| "cmdRun (Exited status out err) =
     (if status = 0 then None else Some (ExitError status), out, err)"

datatype runner_error =
    UnsupportedLanguage gostring   \<comment> \<open>\<open>unsupported language: ...\<close>\<close>

text \<open>
  \<open>RunTests\<close>, given what the operating system does with a command.  The first component of
  the result lists the commands that were run.  \<open>runTestCommand\<close> is the part of \<open>RunTests\<close>
  after the \<open>switch\<close>.
\<close>

definition runTestCommand ::
  "(command \<Rightarrow> process_outcome) \<Rightarrow> command \<Rightarrow> command list \<times> (runner_error + TestResult)" where
  "runTestCommand os cmd =
     (case cmdRun (os cmd) of
        (err, stdout, stderr) \<Rightarrow>
          (let output = stdout @ stderr in
           if err \<noteq> None then ([cmd], Inr \<lparr>Success = False, Output = output\<rparr>)
           else ([cmd], Inr \<lparr>Success = True, Output = output\<rparr>)))"

definition RunTests ::
  "(command \<Rightarrow> process_outcome) \<Rightarrow> gostring \<Rightarrow> gostring
     \<Rightarrow> command list \<times> (runner_error + TestResult)" where
  "RunTests os workDir language =
     (if language = str ''go'' then
        runTestCommand os (str ''go'', [str ''test'', str ''-v'', str ''./...''], workDir)
      else if language = str ''python'' then
        runTestCommand os
          (str ''python'', [str ''-m'', str ''pytest'', str ''main_test.py'', str ''-v''], workDir)
      else ([], Inl (UnsupportedLanguage language)))"

subsection \<open>The workspace\<close>

text \<open>
  What a run does to its workspace and which collaborators it calls is recorded as a list of
  events.  The number in \<open>RunTestsCalled\<close> and \<open>FixBothCalled\<close> is the loop counter \<open>i\<close>.
\<close>

datatype event =
    WorkspaceCreated gostring
      \<comment> \<open>\<open>os.MkdirTemp\<close> made this directory\<close>
  | WorkspaceRemoved gostring
      \<comment> \<open>\<open>os.RemoveAll\<close> was called on it\<close>
  | FilesWritten gostring gostring
      \<comment> \<open>\<open>writeFiles\<close> went to write this test code and this code into the workspace\<close>
  | RunTestsCalled nat "runner_error + TestResult"
      \<comment> \<open>\<open>RunTests\<close> was called and returned this\<close>
  | FixBothCalled nat "gen_error + FixResult"
      \<comment> \<open>\<open>FixBoth\<close> was called and returned this\<close>
  | FinalFilesCopied
      \<comment> \<open>\<open>copyFinalFiles\<close> copied the two files to the output directory\<close>

datatype workspace_error =
    MkdirTempFailed           \<comment> \<open>\<open>failed to create workspace\<close>\<close>
  | GoModInitFailed           \<comment> \<open>the error of \<open>go mod init\<close>\<close>
  | GoModWriteFailed          \<comment> \<open>\<open>failed to write go.mod\<close>\<close>
  | GoModTidyFailed           \<comment> \<open>the error of \<open>go mod tidy\<close>\<close>
  | RequirementsWriteFailed   \<comment> \<open>\<open>failed to create requirements.txt\<close>\<close>
  | PipInstallFailed          \<comment> \<open>\<open>failed to install Python requirements\<close>\<close>

definition initGoModule :: "(command \<Rightarrow> process_outcome) \<Rightarrow> gostring \<Rightarrow> workspace_error option" where
  "initGoModule os dir =
     (case cmdRun (os (str ''go'', [str ''mod'', str ''init'', str ''temp''], dir)) of
        (Some err, _) \<Rightarrow> Some GoModInitFailed
      | (None, _) \<Rightarrow> None)"

definition initPythonEnv ::
  "(command \<Rightarrow> process_outcome) \<Rightarrow> bool \<Rightarrow> gostring \<Rightarrow> workspace_error option" where
  "initPythonEnv os write_ok dir =
     (if \<not> write_ok then Some RequirementsWriteFailed
      else case cmdRun (os (str ''pip'', [str ''install'', str ''-r'', str ''requirements.txt''], dir)) of
             (Some err, _) \<Rightarrow> Some PipInstallFailed
           | (None, _) \<Rightarrow> None)"

text \<open>
  \<open>PrepareWorkspace\<close>: \<open>tmp\<close> is the directory that \<open>os.MkdirTemp\<close> makes, if it succeeds, and
  \<open>write_ok\<close> tells whether \<open>os.WriteFile\<close> succeeds.
\<close>

definition PrepareWorkspace ::
  "gostring option \<Rightarrow> (command \<Rightarrow> process_outcome) \<Rightarrow> bool \<Rightarrow> gostring
     \<Rightarrow> event list \<times> (workspace_error + gostring)" where
  "PrepareWorkspace tmp os write_ok language =
     (case tmp of
        None \<Rightarrow> ([], Inl MkdirTempFailed)
      | Some tmpDir \<Rightarrow>
          if language = str ''go'' then
            (case initGoModule os tmpDir of
               Some err \<Rightarrow> ([WorkspaceCreated tmpDir, WorkspaceRemoved tmpDir], Inl err)
             | None \<Rightarrow>
                 if \<not> write_ok then
                   ([WorkspaceCreated tmpDir, WorkspaceRemoved tmpDir], Inl GoModWriteFailed)
                 else
                   (case cmdRun (os (str ''go'', [str ''mod'', str ''tidy''], tmpDir)) of
                      (Some err, _) \<Rightarrow>
                        ([WorkspaceCreated tmpDir, WorkspaceRemoved tmpDir], Inl GoModTidyFailed)
                    | (None, _) \<Rightarrow> ([WorkspaceCreated tmpDir], Inr tmpDir)))
          else if language = str ''python'' then
            (case initPythonEnv os write_ok tmpDir of
               Some err \<Rightarrow> ([WorkspaceCreated tmpDir], Inl err)
             | None \<Rightarrow> ([WorkspaceCreated tmpDir], Inr tmpDir))
          else ([WorkspaceCreated tmpDir], Inr tmpDir))"

section \<open>Package cmd: the controller \<open>runNew\<close>\<close>

definition maxIterations :: nat where
  "maxIterations = 5"

definition supportedLanguages :: "gostring \<Rightarrow> bool" where
  "supportedLanguages language \<longleftrightarrow> language = str ''go'' \<or> language = str ''python''"

definition getFileExtension :: "gostring \<Rightarrow> gostring" where
  "getFileExtension language =
     (if language = str ''python'' then str ''py''
      else if language = str ''go'' then str ''go''
      else [])"

datatype files_error =
    UnsupportedExtension gostring   \<comment> \<open>\<open>unsupported language: ...\<close>\<close>
  | FileOperationFailed             \<comment> \<open>a read, a write or the dependency update failed\<close>

text \<open>
  \<open>writeFiles\<close> and \<open>copyFinalFiles\<close>; \<open>ok\<close> tells whether all their file operations (and, for
  Go, \<open>UpdateDependencies\<close>) succeed.  A failing \<open>writeFiles\<close> may already have written a file,
  so the event is recorded as soon as the language is accepted.
\<close>

definition writeFiles ::
  "bool \<Rightarrow> gostring \<Rightarrow> gostring \<Rightarrow> gostring \<Rightarrow> event list \<times> files_error option" where
  "writeFiles ok testCode code language =
     (let ext = getFileExtension language in
      if ext = [] then ([], Some (UnsupportedExtension language))
      else if \<not> ok then ([FilesWritten testCode code], Some FileOperationFailed)
      else ([FilesWritten testCode code], None))"

definition copyFinalFiles :: "bool \<Rightarrow> gostring \<Rightarrow> event list \<times> files_error option" where
  "copyFinalFiles ok language =
     (let ext = getFileExtension language in
      if ext = [] then ([], Some (UnsupportedExtension language))
      else if \<not> ok then ([], Some FileOperationFailed)
      else ([FinalFilesCopied], None))"

text \<open>
  Everything a run of \<open>runNew\<close> gets from outside: the command line and the two lines read
  from standard input, and the answers of the operating system, of the clock and of the
  completion service to each call, those inside the loop by loop counter.
\<close>

record run_env =
  api_key_set :: bool
  home_dir_ok :: bool
  storage_dir_ok :: bool
  args :: "gostring list"
  description_line :: "gostring option"
  language_line :: "gostring option"
  unicode_lower :: "rune \<Rightarrow> rune"
  stored :: filesystem
  session_uuid :: gostring
  create_io :: io_env
  temp_dir :: "gostring option"
  workspace_os :: "command \<Rightarrow> process_outcome"
  workspace_write_ok :: bool
  name_completion :: api_response
  output_dir_ok :: bool
  tests_completion :: api_response
  code_completion :: api_response
  write_files_ok :: "nat \<Rightarrow> bool"
  tests_os :: "nat \<Rightarrow> command \<Rightarrow> process_outcome"
  add_io :: "nat \<Rightarrow> io_env"
  fix_completion :: "nat \<Rightarrow> api_response"
  copy_ok :: bool

datatype run_error =
    AIClientFailed                            \<comment> \<open>\<open>failed to initialize AI client\<close>\<close>
  | HomeDirFailed                             \<comment> \<open>\<open>failed to get home directory\<close>\<close>
  | StorageInitFailed                         \<comment> \<open>\<open>failed to initialize storage\<close>\<close>
  | DescriptionRequired                       \<comment> \<open>\<open>description is required\<close>\<close>
  | LanguageRequired                          \<comment> \<open>\<open>language is required\<close>\<close>
  | LanguageNotSupported gostring             \<comment> \<open>\<open>unsupported language: ...\<close>\<close>
  | CreateSessionFailed store_error           \<comment> \<open>\<open>failed to create session\<close>\<close>
  | PrepareWorkspaceFailed workspace_error    \<comment> \<open>\<open>failed to prepare workspace\<close>\<close>
  | OutputDirFailed                           \<comment> \<open>\<open>failed to create output directory\<close>\<close>
  | GenerateTestsFailed gen_error             \<comment> \<open>\<open>failed to generate tests\<close>\<close>
  | GenerateImplementationFailed gen_error    \<comment> \<open>\<open>failed to generate implementation\<close>\<close>
  | WriteFilesFailed files_error              \<comment> \<open>\<open>failed to write files\<close>\<close>
  | RunTestsFailed runner_error               \<comment> \<open>\<open>failed to run tests\<close>\<close>
  | StoreIterationFailed store_error          \<comment> \<open>\<open>failed to store iteration\<close>\<close>
  | FixFailed gen_error                       \<comment> \<open>\<open>failed to fix code\<close>\<close>
  | CopyFinalFilesFailed files_error          \<comment> \<open>\<open>failed to copy final files\<close>\<close>

text \<open>
  The variables of \<open>runNew\<close> that the loop changes (with the suffix \<open>_v\<close>), and the session
  store.
\<close>

record loop_vars =
  testCode_v :: gostring
  code_v :: gostring
  success_v :: bool
  lastTestOutput_v :: gostring
  store_v :: filesystem

text \<open>How one pass through the body of the loop ends.\<close>

datatype control = Return run_error | Break | Next

definition loopBody ::
  "run_env \<Rightarrow> gostring \<Rightarrow> gostring \<Rightarrow> gostring \<Rightarrow> nat \<Rightarrow> loop_vars
     \<Rightarrow> event list \<times> control \<times> loop_vars" where
  "loopBody env workDir language sessionID i vars =
     (case snd (RunTests (tests_os env i) workDir language) of
        Inl err \<Rightarrow> ([RunTestsCalled i (Inl err)], Return (RunTestsFailed err), vars)
      | Inr result \<Rightarrow>
          (let vars = vars\<lparr>lastTestOutput_v := Output result\<rparr> in
           case AddIteration (store_v vars) (add_io env i) sessionID
                  (testCode_v vars) (code_v vars) (Output result) (Success result) of
             (fs, Some err) \<Rightarrow>
               ([RunTestsCalled i (Inr result)], Return (StoreIterationFailed err),
                vars\<lparr>store_v := fs\<rparr>)
           | (fs, None) \<Rightarrow>
               (let vars = vars\<lparr>store_v := fs\<rparr> in
                if Success result then
                  ([RunTestsCalled i (Inr result)], Break, vars\<lparr>success_v := True\<rparr>)
                else
                  (case FixBoth (fix_completion env i) of
                     Inl err \<Rightarrow>
                       ([RunTestsCalled i (Inr result), FixBothCalled i (Inl err)],
                        Return (FixFailed err), vars)
                   | Inr fixResult \<Rightarrow>
                       (let vars = vars\<lparr>code_v := Code fixResult\<rparr>;
                            vars = vars\<lparr>testCode_v := TestCode fixResult\<rparr>
                        in case writeFiles (write_files_ok env (Suc i))
                                  (testCode_v vars) (code_v vars) language of
                             (evs, Some err) \<Rightarrow>
                               ([RunTestsCalled i (Inr result), FixBothCalled i (Inr fixResult)] @ evs,
                                Return (WriteFilesFailed err), vars)
                           | (evs, None) \<Rightarrow>
                               ([RunTestsCalled i (Inr result), FixBothCalled i (Inr fixResult)] @ evs,
                                Next, vars))))))"

text \<open>The loop \<open>for i := 0; i < maxIterations; i++\<close>, from the counter \<open>i\<close> on.\<close>

function iterationLoop ::
  "run_env \<Rightarrow> gostring \<Rightarrow> gostring \<Rightarrow> gostring \<Rightarrow> nat \<Rightarrow> loop_vars
     \<Rightarrow> event list \<times> (run_error + loop_vars)" where
  "iterationLoop env workDir language sessionID i vars =
     (if i < maxIterations then
        (case loopBody env workDir language sessionID i vars of
           (evs, Return err, vars') \<Rightarrow> (evs, Inl err)
         | (evs, Break, vars') \<Rightarrow> (evs, Inr vars')
         | (evs, Next, vars') \<Rightarrow>
             (case iterationLoop env workDir language sessionID (Suc i) vars' of
                (evs', r) \<Rightarrow> (evs @ evs', r)))
      else ([], Inr vars))"
  by pat_completeness auto
termination
  by (relation "measure (\<lambda>(env, workDir, language, sessionID, i, vars). maxIterations - i)") auto

declare iterationLoop.simps [simp del]

text \<open>
  The part of \<open>runNew\<close> that runs after \<open>defer os.RemoveAll(workDir)\<close>.  The result is an error,
  or \<open>nil\<close> together with the value of \<open>success\<close>: \<open>True\<close> if a test run passed, \<open>False\<close> if the
  iterations were exhausted.
\<close>

definition runInWorkspace ::
  "run_env \<Rightarrow> gostring \<Rightarrow> gostring \<Rightarrow> Session \<Rightarrow> filesystem \<Rightarrow> gostring
     \<Rightarrow> event list \<times> (run_error + bool)" where
  "runInWorkspace env description language session fs workDir =
     (let outputDirName =
            (case GenerateDirectoryName (unicode_lower env) (name_completion env) of
               Inl err \<Rightarrow> str ''generated-function''
             | Inr name \<Rightarrow> name)
      in
      if \<not> output_dir_ok env then ([], Inl OutputDirFailed)
      else case GenerateTests (tests_completion env) of
        Inl err \<Rightarrow> ([], Inl (GenerateTestsFailed err))
      | Inr testCode \<Rightarrow>
         (case GenerateImplementation (code_completion env) of
            Inl err \<Rightarrow> ([], Inl (GenerateImplementationFailed err))
          | Inr code \<Rightarrow>
             (case writeFiles (write_files_ok env 0) testCode code language of
                (evs, Some err) \<Rightarrow> (evs, Inl (WriteFilesFailed err))
              | (evs, None) \<Rightarrow>
                 (case iterationLoop env workDir language (ID session) 0
                         \<lparr>testCode_v = testCode, code_v = code, success_v = False,
                          lastTestOutput_v = [], store_v = fs\<rparr> of
                    (evs', Inl err) \<Rightarrow> (evs @ evs', Inl err)
                  | (evs', Inr vars) \<Rightarrow>
                     (case copyFinalFiles (copy_ok env) language of
                        (evs'', Some err) \<Rightarrow> (evs @ evs' @ evs'', Inl (CopyFinalFilesFailed err))
                      | (evs'', None) \<Rightarrow> (evs @ evs' @ evs'', Inr (success_v vars)))))))"

definition runNew :: "run_env \<Rightarrow> event list \<times> (run_error + bool)" where
  "runNew env =
     (if \<not> api_key_set env then ([], Inl AIClientFailed)
      else if \<not> home_dir_ok env then ([], Inl HomeDirFailed)
      else if \<not> storage_dir_ok env then ([], Inl StorageInitFailed)
      else
        (let description =
               (if length (args env) > 0 then args env ! 0
                else case description_line env of Some text \<Rightarrow> text | None \<Rightarrow> [])
         in
         if description = [] then ([], Inl DescriptionRequired)
         else
           (let language =
                  (case language_line env of
                     Some text \<Rightarrow> ToLower (unicode_lower env) (TrimSpace text)
                   | None \<Rightarrow> [])
            in
            if language = [] then ([], Inl LanguageRequired)
            else if \<not> supportedLanguages language then ([], Inl (LanguageNotSupported language))
            else
              (case CreateSession (stored env) (create_io env) (session_uuid env)
                      description language of
                 (fs, Inl err) \<Rightarrow> ([], Inl (CreateSessionFailed err))
               | (fs, Inr session) \<Rightarrow>
                   (case PrepareWorkspace (temp_dir env) (workspace_os env)
                           (workspace_write_ok env) language of
                      (evs, Inl err) \<Rightarrow> (evs, Inl (PrepareWorkspaceFailed err))
                    | (evs, Inr workDir) \<Rightarrow>
                        (case runInWorkspace env description language session fs workDir of
                           (evs', r) \<Rightarrow> (evs @ evs' @ [WorkspaceRemoved workDir], r)))))))"

subsection \<open>Reading the list of events\<close>

text \<open>
  Test runs, test runs that passed, and the events of a generate-run-repair cycle: a test
  run, a repair call, a write into the workspace.
\<close>

fun is_run :: "event \<Rightarrow> bool" where
  "is_run (RunTestsCalled i r) = True"
| "is_run _ = False"

fun is_pass :: "event \<Rightarrow> bool" where
  "is_pass (RunTestsCalled i (Inr result)) = Success result"
| "is_pass _ = False"

fun is_cycle :: "event \<Rightarrow> bool" where
  "is_cycle (RunTestsCalled i r) = True"
| "is_cycle (FixBothCalled i r) = True"
| "is_cycle (FilesWritten testCode code) = True"
| "is_cycle _ = False"

text \<open>
  \<open>stops_at P evs\<close>: after the first event of \<open>evs\<close> that satisfies \<open>P\<close>, no event of a cycle
  follows.
\<close>

fun stops_at :: "(event \<Rightarrow> bool) \<Rightarrow> event list \<Rightarrow> bool" where
  "stops_at P [] = True"
| "stops_at P (e # es) = (if P e then (\<forall>x\<in>set es. \<not> is_cycle x) else stops_at P es)"

text \<open>A repair call that returned an error.\<close>

fun is_failed_fix :: "event \<Rightarrow> bool" where
  "is_failed_fix (FixBothCalled i (Inl err)) = True"
| "is_failed_fix _ = False"

subsection \<open>Example runs\<close>

text \<open>
  An environment in which everything succeeds, the language is Go, the test process of loop
  pass \<open>i\<close> exits with status 0 when \<open>passes i\<close> and with status 1 otherwise, and every repair
  call is answered with a well-formed response.
\<close>

definition passing_fix :: gostring where
  "passing_fix = str ''---IMPLEMENTATION---\<newline>package main\<newline>---TESTS---\<newline>package main_test\<newline>---END---''"

definition base_env :: "(nat \<Rightarrow> bool) \<Rightarrow> run_env" where
  "base_env passes =
     \<lparr>api_key_set = True, home_dir_ok = True, storage_dir_ok = True,
      args = [str ''add two integers''], description_line = None,
      language_line = Some (str '' Go ''), unicode_lower = id,
      stored = Map.empty, session_uuid = str ''s1'', create_io = demo_env Written,
      temp_dir = Some (str ''/tmp/aiterate-1''),
      workspace_os = (\<lambda>cmd. Exited 0 [] []), workspace_write_ok = True,
      name_completion = Choices [str ''add-ints''], output_dir_ok = True,
      tests_completion = Choices [str ''package main_test''],
      code_completion = Choices [str ''package main''],
      write_files_ok = (\<lambda>k. True),
      tests_os = (\<lambda>i cmd. if passes i then Exited 0 (str ''ok'') [] else Exited 1 (str ''FAIL'') []),
      add_io = (\<lambda>i. demo_env Written),
      fix_completion = (\<lambda>i. Choices [passing_fix]),
      copy_ok = True\<rparr>"

text \<open>The events of the run whose second test run passes.\<close>

definition passed_trace :: "event list" where
  "passed_trace =
     [WorkspaceCreated (str ''/tmp/aiterate-1''),
      FilesWritten (str ''package main_test'') (str ''package main''),
      RunTestsCalled 0 (Inr \<lparr>Success = False, Output = str ''FAIL''\<rparr>),
      FixBothCalled 0 (Inr \<lparr>TestCode = str ''package main_test'', Code = str ''package main''\<rparr>),
      FilesWritten (str ''package main_test'') (str ''package main''),
      RunTestsCalled 1 (Inr \<lparr>Success = True, Output = str ''ok''\<rparr>),
      FinalFilesCopied,
      WorkspaceRemoved (str ''/tmp/aiterate-1'')]"

text \<open>A repair response whose tests section is only an opening fence, and the run it ends.\<close>

definition empty_tests_fix :: gostring where
  "empty_tests_fix = str ''---IMPLEMENTATION---\<newline>package main\<newline>---TESTS---\<newline>```\<newline>---END---''"

definition aborted_trace :: "event list" where
  "aborted_trace =
     [WorkspaceCreated (str ''/tmp/aiterate-1''),
      FilesWritten (str ''package main_test'') (str ''package main''),
      RunTestsCalled 0 (Inr \<lparr>Success = False, Output = str ''FAIL''\<rparr>),
      FixBothCalled 0 (Inl ExtractionFailed),
      WorkspaceRemoved (str ''/tmp/aiterate-1'')]"

text \<open>The language is Python and \<open>pip install\<close> exits with status 1.\<close>

definition pip_fails_env :: run_env where
  "pip_fails_env =
     (base_env (\<lambda>i. True))\<lparr>language_line := Some (str ''python''),
        workspace_os := \<lambda>cmd. Exited 1 [] (str ''pip: network unreachable'')\<rparr>"

subsection \<open>Reading the outcome of a process\<close>

text \<open>
  The command that \<open>RunTests\<close> runs for a supported language, whether a process ran and
  exited with status zero, and what it wrote to its two streams, standard output first.
\<close>

fun exited_zero :: "process_outcome \<Rightarrow> bool" where
  "exited_zero (Exited status out err) \<longleftrightarrow> status = 0"
| "exited_zero StartFailed \<longleftrightarrow> False"

fun combined_output :: "process_outcome \<Rightarrow> gostring" where
  "combined_output (Exited status out err) = out @ err"
| "combined_output StartFailed = []"

definition test_command :: "gostring \<Rightarrow> gostring \<Rightarrow> command" where
  "test_command language workDir =
     (if language = str ''go'' then (str ''go'', [str ''test'', str ''-v'', str ''./...''], workDir)
      else (str ''python'', [str ''-m'', str ''pytest'', str ''main_test.py'', str ''-v''], workDir))"

section \<open>Properties of the string functions\<close>

lemma dropEnd_snoc:
  "rev (dropWhile P (rev (xs @ [x]))) = (if P x then rev (dropWhile P (rev xs)) else xs @ [x])"
  by simp

lemma dropEnd_hd:
  "xs \<noteq> [] \<Longrightarrow> \<not> P (hd xs) \<Longrightarrow>
   rev (dropWhile P (rev xs)) \<noteq> [] \<and> hd (rev (dropWhile P (rev xs))) = hd xs"
proof (induction xs rule: rev_induct)
  case Nil
  then show ?case by simp
next
  case (snoc x xs)
  show ?case
  proof (cases "P x")
    case True
    with snoc.prems have "xs \<noteq> []" by (cases xs) auto
    with snoc True show ?thesis by simp
  next
    case False
    then show ?thesis by simp
  qed
qed

lemma trim_ends:
  fixes P :: "'a \<Rightarrow> bool"
  defines "t \<equiv> (\<lambda>s. rev (dropWhile P (rev (dropWhile P s))))"
  shows "t s = [] \<or> (\<not> P (hd (t s)) \<and> \<not> P (last (t s)))"
proof (cases "t s = []")
  case True
  then show ?thesis by simp
next
  case False
  let ?l = "dropWhile P s"
  let ?d = "dropWhile P (rev ?l)"
  from False have d: "?d \<noteq> []" by (simp add: t_def)
  then have l: "?l \<noteq> []" by (cases "?l = []") simp_all
  have "\<not> P (hd ?l)" using l by (rule hd_dropWhile)
  with l have "hd (t s) = hd ?l" unfolding t_def using dropEnd_hd by blast
  moreover have "\<not> P (hd ?l)" using l by (rule hd_dropWhile)
  moreover have "last (t s) = hd ?d" unfolding t_def using d by (simp add: last_rev)
  moreover have "\<not> P (hd ?d)" using d by (rule hd_dropWhile)
  ultimately show ?thesis by simp
qed

lemma trim_fix:
  "s = [] \<or> (\<not> P (hd s) \<and> \<not> P (last s)) \<Longrightarrow> rev (dropWhile P (rev (dropWhile P s))) = s"
proof (cases "s = []")
  case True
  then show ?thesis by simp
next
  case False
  assume "s = [] \<or> (\<not> P (hd s) \<and> \<not> P (last s))"
  with False have h: "\<not> P (hd s)" and l: "\<not> P (last s)" by auto
  from False h have 1: "dropWhile P s = s" by (cases s) auto
  from False l have 2: "dropWhile P (rev s) = rev s"
    by (cases "rev s") (auto simp: last_rev dest: arg_cong[where f=hd] simp flip: hd_rev)
  show ?thesis by (simp add: 1 2)
qed

lemma trim_decomp:
  "\<exists>a b. s = a @ rev (dropWhile P (rev (dropWhile P s))) @ b \<and> (\<forall>x\<in>set a. P x) \<and> (\<forall>x\<in>set b. P x)"
proof -
  let ?l = "dropWhile P s"
  have 1: "s = takeWhile P s @ ?l" by simp
  have "?l = rev (rev ?l)" by simp
  also have "\<dots> = rev (takeWhile P (rev ?l) @ dropWhile P (rev ?l))"
    by (simp only: takeWhile_dropWhile_id)
  also have "\<dots> = rev (dropWhile P (rev ?l)) @ rev (takeWhile P (rev ?l))"
    by (simp only: rev_append)
  finally have 2: "?l = rev (dropWhile P (rev ?l)) @ rev (takeWhile P (rev ?l))" .
  have 3: "\<forall>x\<in>set (takeWhile P s). P x" by (auto dest: set_takeWhileD)
  have 4: "\<forall>x\<in>set (rev (takeWhile P (rev ?l))). P x" by (auto dest: set_takeWhileD)
  from 1 2 have "s = takeWhile P s @ rev (dropWhile P (rev ?l)) @ rev (takeWhile P (rev ?l))" by metis
  with 3 4 show ?thesis by blast
qed

lemma trim_append_junk:
  assumes "\<forall>x\<in>set w. P x"
  shows "rev (dropWhile P (rev (dropWhile P (s @ w)))) = rev (dropWhile P (rev (dropWhile P s)))"
proof (cases "\<forall>x\<in>set s. P x")
  case True
  with assms have "\<forall>x\<in>set (s @ w). P x" by auto
  then have "dropWhile P (s @ w) = []" by (induction "s @ w" arbitrary: s w) auto
  moreover from True have "dropWhile P s = []" by (induction s) auto
  ultimately have "dropWhile P (s @ w) = []" "dropWhile P s = []" by auto
  then show ?thesis by (simp only:)
next
  case False
  then obtain x where "x \<in> set s" "\<not> P x" by blast
  then have "dropWhile P (s @ w) = dropWhile P s @ w" by (rule dropWhile_append1)
  moreover have "dropWhile P (rev w @ rev (dropWhile P s)) = dropWhile P (rev (dropWhile P s))"
    by (rule dropWhile_append2) (use assms in auto)
  ultimately show ?thesis by simp
qed

lemma trim_junk: "\<forall>x\<in>set w. P x \<Longrightarrow> rev (dropWhile P (rev (dropWhile P w))) = []"
proof -
  assume "\<forall>x\<in>set w. P x"
  then have "dropWhile P w = []" by (induction w) auto
  then show ?thesis by (simp only: rev.simps dropWhile.simps)
qed

lemma TrimSpace_idem: "TrimSpace (TrimSpace s) = TrimSpace s"
  unfolding TrimSpace_def by (rule trim_fix) (rule trim_ends)

lemma TrimSpace_decomp:
  "\<exists>a b. s = a @ TrimSpace s @ b \<and> (\<forall>x\<in>set a. isSpace x) \<and> (\<forall>x\<in>set b. isSpace x)"
  unfolding TrimSpace_def by (rule trim_decomp)

lemma TrimSpace_append_spaces: "\<forall>x\<in>set w. isSpace x \<Longrightarrow> TrimSpace (s @ w) = TrimSpace s"
  unfolding TrimSpace_def by (rule trim_append_junk)

lemma TrimSpace_spaces: "\<forall>x\<in>set w. isSpace x \<Longrightarrow> TrimSpace w = []"
  unfolding TrimSpace_def by (rule trim_junk)

lemma TrimSpace_ends: "TrimSpace s = [] \<or> (\<not> isSpace (hd (TrimSpace s)) \<and> \<not> isSpace (last (TrimSpace s)))"
  unfolding TrimSpace_def by (rule trim_ends)

lemma TrimSpace_fix: "s = [] \<or> (\<not> isSpace (hd s) \<and> \<not> isSpace (last s)) \<Longrightarrow> TrimSpace s = s"
  unfolding TrimSpace_def by (rule trim_fix)

lemma Split_Nil: "sep \<noteq> [] \<Longrightarrow> Split [] sep = [[]]"
  by (simp add: Split.simps)

lemma Split_prefix: "sep \<noteq> [] \<Longrightarrow> Split (sep @ b) sep = [] # Split b sep"
  by (subst Split.simps) simp

lemma Split_no_prefix:
  "sep \<noteq> [] \<Longrightarrow> \<not> prefix sep (x # xs) \<Longrightarrow>
   Split (x # xs) sep = (x # hd (Split xs sep)) # tl (Split xs sep)"
  by (subst Split.simps) (simp add: Let_def)

lemma prefix_short:
  assumes "prefix p (u @ v)" and "length p \<le> length u"
  shows "prefix p u"
proof -
  from assms(1) obtain zs where z: "u @ v = p @ zs" by (auto simp: prefix_def)
  have "p = take (length p) (u @ v)" unfolding z by simp
  also from assms(2) have "\<dots> = take (length p) u" by simp
  finally have "p = take (length p) u" .
  then show ?thesis by (metis take_is_prefix)
qed

lemma Split_first:
  "sep \<noteq> [] \<Longrightarrow> \<not> sublist sep (a @ butlast sep) \<Longrightarrow> Split (a @ sep @ b) sep = a # Split b sep"
proof (induction a)
  case Nil
  then show ?case by (simp add: Split_prefix)
next
  case (Cons x a)
  have np: "\<not> prefix sep ((x # a) @ sep @ b)"
  proof
    assume p: "prefix sep ((x # a) @ sep @ b)"
    have "sep @ b = butlast sep @ last sep # b"
      using Cons.prems(1) by (metis append_butlast_last_id append.assoc append_Cons append_Nil)
    then have eq: "(x # a) @ sep @ b = ((x # a) @ butlast sep) @ (last sep # b)"
      by simp
    from p have "prefix sep (((x # a) @ butlast sep) @ (last sep # b))" by (simp only: eq)
    moreover have "length sep \<le> length ((x # a) @ butlast sep)" by simp
    ultimately have "prefix sep ((x # a) @ butlast sep)" by (rule prefix_short)
    then have "sublist sep ((x # a) @ butlast sep)" by (rule prefix_imp_sublist)
    with Cons.prems(2) show False by simp
  qed
  have "\<not> sublist sep (a @ butlast sep)"
    using Cons.prems(2) by (auto simp: sublist_Cons_right)
  with Cons.IH Cons.prems(1) have "Split (a @ sep @ b) sep = a # Split b sep" by simp
  with np Cons.prems(1) show ?case by (simp add: Split_no_prefix)
qed

lemma Split_none: "sep \<noteq> [] \<Longrightarrow> \<not> sublist sep s \<Longrightarrow> Split s sep = [s]"
proof (induction s)
  case Nil
  then show ?case by (simp add: Split_Nil)
next
  case (Cons x s)
  then have "\<not> prefix sep (x # s)" "\<not> sublist sep s"
    by (auto simp: sublist_Cons_right)
  with Cons show ?case by (simp add: Split_no_prefix)
qed

lemma sublist_single: "sublist [c] s \<longleftrightarrow> c \<in> set s"
  by (induction s) (auto simp: sublist_Cons_right)

lemma Split_Join:
  "ls \<noteq> [] \<Longrightarrow> \<forall>l\<in>set ls. c \<notin> set l \<Longrightarrow> Split (Join ls [c]) [c] = ls"
proof (induction ls "[c]" rule: Join.induct)
  case 1
  then show ?case by simp
next
  case (2 e)
  then show ?case by (simp add: Split_none sublist_single)
next
  case (3 e f elems)
  then have "\<not> sublist [c] (e @ butlast [c])" by (simp add: sublist_single)
  then have "Split (e @ [c] @ Join (f # elems) [c]) [c] = e # Split (Join (f # elems) [c]) [c]"
    by (intro Split_first) simp_all
  with 3 show ?case by simp
qed

lemma closingMarkerLoop_none:
  "\<forall>i<n. TrimSpace (ls ! i) \<noteq> str ''```'' \<Longrightarrow> closingMarkerLoop ls n = ls"
  by (induction n) simp_all

lemma closingMarkerLoop_found:
  "k < n \<Longrightarrow> TrimSpace (ls ! k) = str ''```'' \<Longrightarrow>
   \<forall>i. k < i \<and> i < n \<longrightarrow> TrimSpace (ls ! i) \<noteq> str ''```'' \<Longrightarrow>
   closingMarkerLoop ls n = take k ls"
proof (induction n)
  case 0
  then show ?case by simp
next
  case (Suc n)
  show ?case
  proof (cases "k = n")
    case True
    with Suc.prems show ?thesis by simp
  next
    case False
    with Suc.prems have "k < n" by simp
    moreover from Suc.prems \<open>k < n\<close> have "TrimSpace (ls ! n) \<noteq> str ''```''" by simp
    ultimately show ?thesis using Suc by simp
  qed
qed

lemma closingMarkerLoop_block:
  assumes "TrimSpace closeLine = str ''```''"
    and "\<forall>l\<in>set trailing. TrimSpace l \<noteq> str ''```''"
  shows "closingMarkerLoop (body @ closeLine # trailing) (length (body @ closeLine # trailing)) = body"
proof -
  let ?ls = "body @ closeLine # trailing"
  have "closingMarkerLoop ?ls (length ?ls) = take (length body) ?ls"
  proof (rule closingMarkerLoop_found)
    show "length body < length ?ls" by simp
    show "TrimSpace (?ls ! length body) = str ''```''" using assms(1) by simp
    show "\<forall>i. length body < i \<and> i < length ?ls \<longrightarrow> TrimSpace (?ls ! i) \<noteq> str ''```''"
    proof (intro allI impI)
      fix i assume i: "length body < i \<and> i < length ?ls"
      then obtain j where j: "i = length body + Suc j" "j < length trailing"
        by (metis add_Suc_right less_imp_Suc_add length_append length_Cons nat_add_left_cancel_less Suc_less_eq)
      have "?ls ! (length body + Suc j) = trailing ! j"
        by (simp only: nth_append_length_plus nth_Cons_Suc)
      with j show "TrimSpace (?ls ! i) \<noteq> str ''```''" using assms(2) by (metis nth_mem)
    qed
  qed
  then show ?thesis by simp
qed

lemma Split_Cons_char:
  "Split (x # xs) [c] =
     (if x = c then [] # Split xs [c] else (x # hd (Split xs [c])) # tl (Split xs [c]))"
  by (subst Split.simps) (simp add: Let_def)

lemma Split_char_ne: "Split s [c] \<noteq> []"
  by (cases s) (simp_all add: Split_Nil Split_Cons_char)

lemma Join_Split: "Join (Split s [c]) [c] = s"
proof (induction s)
  case Nil
  then show ?case by (simp add: Split_Nil)
next
  case (Cons x s)
  obtain l ls where S: "Split s [c] = l # ls"
    using Split_char_ne [of s c] by (cases "Split s [c]") auto
  with Cons show ?case
    by (cases ls) (auto simp: Split_Cons_char)
qed

lemma set_Split: "l \<in> set (Split s [c]) \<Longrightarrow> set l \<subseteq> set s"
proof (induction s arbitrary: l)
  case Nil
  then show ?case by (simp add: Split_Nil)
next
  case (Cons x s)
  obtain k ks where S: "Split s [c] = k # ks"
    using Split_char_ne [of s c] by (cases "Split s [c]") auto
  with Cons show ?case
    by (fastforce simp: Split_Cons_char split: if_splits)
qed

lemma Split_append:
  "Split (x @ y) [c] =
     butlast (Split x [c]) @ (last (Split x [c]) @ hd (Split y [c])) # tl (Split y [c])"
proof (induction x)
  case Nil
  then show ?case using Split_char_ne [of y c] by (simp add: Split_Nil)
next
  case (Cons a x)
  obtain k ks where S: "Split x [c] = k # ks"
    using Split_char_ne [of x c] by (cases "Split x [c]") auto
  with Cons show ?case
    by (cases ks) (auto simp: Split_Cons_char)
qed

lemma Join_Cons_ne: "zs \<noteq> [] \<Longrightarrow> Join (e # zs) sep = e @ sep @ Join zs sep"
  by (cases zs) simp_all

lemma Join_glue:
  "xs \<noteq> [] \<Longrightarrow> ys \<noteq> [] \<Longrightarrow>
   Join (butlast xs @ (last xs @ hd ys) # tl ys) sep = Join xs sep @ Join ys sep"
proof (induction xs sep rule: Join.induct)
  case (1 sep)
  then show ?case by simp
next
  case (2 e sep)
  then obtain y ys' where "ys = y # ys'" by (cases ys) auto
  then show ?case by (cases ys') auto
next
  case (3 e f elems sep)
  let ?zs = "butlast (f # elems) @ (last (f # elems) @ hd ys) # tl ys"
  have "butlast (e # f # elems) @ (last (e # f # elems) @ hd ys) # tl ys = e # ?zs"
    by simp
  moreover have "Join (e # ?zs) sep = e @ sep @ Join ?zs sep"
    by (rule Join_Cons_ne) simp
  moreover have "Join ?zs sep = Join (f # elems) sep @ Join ys sep"
    using 3 by simp
  ultimately show ?case by simp
qed

section \<open>Properties of \<open>stripCodeBlock\<close>\<close>

lemma Join_prefix: "prefix e (Join (e # es) sep)"
  by (cases es) simp_all

lemma not_space_backquote: "\<not> isSpace 96" "\<not> isSpace 45"
  by (simp_all add: isSpace_def)

lemma space_newline: "isSpace 10"
  by (simp add: isSpace_def)

lemma stripCodeBlock_fenced:
  assumes form: "TrimSpace code = Join ((str ''```'' @ tag) # body @ closeLine # trailing) (str ''\<newline>'')"
    and nonl: "\<forall>l\<in>set (tag # body @ closeLine # trailing). 10 \<notin> set l"
    and close: "TrimSpace closeLine = str ''```''"
    and last: "\<forall>l\<in>set trailing. TrimSpace l \<noteq> str ''```''"
  shows "stripCodeBlock code = TrimSpace (Join body (str ''\<newline>''))"
proof -
  let ?ls = "(str ''```'' @ tag) # body @ closeLine # trailing"
  have "prefix (str ''```'' @ tag) (TrimSpace code)"
    unfolding form by (rule Join_prefix)
  then have pre: "HasPrefix (TrimSpace code) (str ''```'')"
    unfolding HasPrefix_def by (metis append_prefixD)
  have "\<forall>l\<in>set ?ls. 10 \<notin> set l" using nonl by auto
  then have split: "Split (TrimSpace code) [10] = ?ls"
    unfolding form by (simp add: Split_Join)
  have loop: "closingMarkerLoop (body @ closeLine # trailing) (length (body @ closeLine # trailing)) = body"
    using close last by (rule closingMarkerLoop_block)
  show ?thesis
    unfolding stripCodeBlock_def Let_def using pre split loop by simp
qed

lemma stripCodeBlock_opening_only:
  assumes "TrimSpace code = str ''```'' @ tag" and "10 \<notin> set tag"
  shows "stripCodeBlock code = []"
proof -
  have "HasPrefix (TrimSpace code) (str ''```'')"
    unfolding HasPrefix_def assms(1) by simp
  moreover have "Split (TrimSpace code) [10] = [TrimSpace code]"
    by (rule Split_none) (simp_all add: assms sublist_single)
  ultimately show ?thesis
    unfolding stripCodeBlock_def Let_def by simp
qed

lemma sublist_TrimSpace: "sublist p (TrimSpace s) \<Longrightarrow> sublist p s"
proof -
  assume p: "sublist p (TrimSpace s)"
  obtain a b where "s = a @ TrimSpace s @ b" using TrimSpace_decomp by blast
  then have "sublist (TrimSpace s) s" unfolding sublist_def by blast
  with p show ?thesis by (rule sublist_order.order_trans)
qed

lemma stripCodeBlock_no_fence:
  assumes "\<not> Contains code (str ''```'')"
  shows "stripCodeBlock code = TrimSpace code"
proof -
  have "\<not> HasPrefix (TrimSpace code) (str ''```'')"
  proof
    assume "HasPrefix (TrimSpace code) (str ''```'')"
    then have "sublist (str ''```'') (TrimSpace code)"
      unfolding HasPrefix_def by (rule prefix_imp_sublist)
    then have "sublist (str ''```'') code" by (rule sublist_TrimSpace)
    with assms show False by (simp add: Contains_def)
  qed
  then show ?thesis
    unfolding stripCodeBlock_def Let_def by (simp add: TrimSpace_idem)
qed

lemma stripCodeBlock_trimmed:
  "stripCodeBlock code =
    (if HasPrefix (TrimSpace code) (str ''```'') then
       (if length (Split (TrimSpace code) [10]) \<le> 1 then []
        else TrimSpace (Join (closingMarkerLoop (tl (Split (TrimSpace code) [10]))
                               (length (tl (Split (TrimSpace code) [10])))) [10]))
     else TrimSpace code)"
  unfolding stripCodeBlock_def Let_def by (simp add: TrimSpace_idem)

lemma TrimSpace_fence_start:
  assumes "HasPrefix code (str ''```'')"
  shows "\<exists>b. code = TrimSpace code @ b \<and> (\<forall>x\<in>set b. isSpace x) \<and> HasPrefix (TrimSpace code) (str ''```'')"
proof -
  obtain a b where d: "code = a @ TrimSpace code @ b" "\<forall>x\<in>set a. isSpace x" "\<forall>x\<in>set b. isSpace x"
    using TrimSpace_decomp by blast
  from assms obtain r where r: "code = 96 # 96 # 96 # r"
    by (auto simp: HasPrefix_def prefix_def)
  have "a = []"
  proof (cases a)
    case Nil then show ?thesis .
  next
    case (Cons x xs)
    with d(1) r have "x = 96" by (metis append_Cons list.inject)
    with Cons d(2) not_space_backquote(1) show ?thesis by auto
  qed
  with d have c: "code = TrimSpace code @ b" by simp
  have "prefix (str ''```'') (TrimSpace code @ b)" using assms c by (simp add: HasPrefix_def)
  then consider "prefix (str ''```'') (TrimSpace code)"
    | us where "str ''```'' = TrimSpace code @ us" "prefix us b" "us \<noteq> []"
    by (metis prefix_append append_Nil2 prefix_order.order_refl)
  then have "prefix (str ''```'') (TrimSpace code)"
  proof cases
    case 1 then show ?thesis .
  next
    case 2
    then have "hd us \<in> set (str ''```'')" by (metis hd_in_set in_set_conv_decomp Un_iff set_append)
    then have "hd us = 96" by simp
    moreover from 2 have "hd us \<in> set b" by (metis hd_in_set set_mono_prefix subsetD)
    ultimately show ?thesis using d(3) not_space_backquote(1) by auto
  qed
  with c d(3) show ?thesis unfolding HasPrefix_def by blast
qed

lemma stripCodeBlock_unterminated:
  assumes pre: "HasPrefix code (str ''```'')"
    and many: "length (Split code (str ''\<newline>'')) > 1"
    and noclose: "\<forall>l\<in>set (tl (Split code (str ''\<newline>''))). TrimSpace l \<noteq> str ''```''"
  shows "stripCodeBlock code = TrimSpace (Join (tl (Split code (str ''\<newline>''))) (str ''\<newline>''))"
proof -
  let ?T = "TrimSpace code"
  obtain b where b: "code = ?T @ b" "\<forall>x\<in>set b. isSpace x" "HasPrefix ?T (str ''```'')"
    using TrimSpace_fence_start [OF pre] by blast
  let ?L = "Split ?T [10]" and ?B = "Split b [10]"
  have Lne: "?L \<noteq> []" and Bne: "?B \<noteq> []" by (rule Split_char_ne)+
  have Bsp: "\<forall>l\<in>set ?B. \<forall>x\<in>set l. isSpace x"
    using set_Split b(2) by blast
  have hdB: "\<forall>x\<in>set (hd ?B). isSpace x" using Bsp Bne by (metis hd_in_set)
  have SC: "Split code [10] = butlast ?L @ (last ?L @ hd ?B) # tl ?B"
    by (subst b(1)) (rule Split_append)
  show ?thesis
  proof (cases "length ?L \<le> 1")
    case True
    with Lne have "butlast ?L = []" by (cases ?L) auto
    with SC have tl: "tl (Split code [10]) = tl ?B" by simp
    have "\<forall>x\<in>set (Join (tl ?B) [10]). isSpace x"
    proof -
      have "\<forall>x\<in>set (Join ls [10]). isSpace x" if "\<forall>l\<in>set ls. \<forall>x\<in>set l. isSpace x" for ls
        using that by (induction ls "[10::int]" rule: Join.induct) (auto simp: space_newline)
      moreover have "\<forall>l\<in>set (tl ?B). \<forall>x\<in>set l. isSpace x"
        using Bsp by (meson list.set_sel(2) Bne)
      ultimately show ?thesis by blast
    qed
    then have "TrimSpace (Join (tl ?B) [10]) = []" by (rule TrimSpace_spaces)
    with True b(3) tl show ?thesis by (simp add: stripCodeBlock_trimmed)
  next
    case False
    then obtain l0 L' where L: "?L = l0 # L'" "L' \<noteq> []" by (cases ?L) auto
    then have bl: "butlast ?L = l0 # butlast L'" "last ?L = last L'" by simp_all
    with SC have tl: "tl (Split code [10]) = butlast L' @ (last L' @ hd ?B) # tl ?B" by simp
    have nc: "\<forall>l\<in>set L'. TrimSpace l \<noteq> str ''```''"
    proof
      fix l assume "l \<in> set L'"
      then have "l \<in> set (butlast L' @ [last L'])" using L(2) by simp
      then consider "l \<in> set (butlast L')" | "l = last L'" by auto
      then show "TrimSpace l \<noteq> str ''```''"
      proof cases
        case 1
        with noclose tl show ?thesis by simp
      next
        case 2
        have "TrimSpace (last L' @ hd ?B) \<noteq> str ''```''" using noclose tl by simp
        moreover have "TrimSpace (last L' @ hd ?B) = TrimSpace (last L')"
          using hdB by (rule TrimSpace_append_spaces)
        ultimately show ?thesis using 2 by simp
      qed
    qed
    then have "\<forall>i<length L'. TrimSpace (L' ! i) \<noteq> str ''```''" by simp
    then have loop: "closingMarkerLoop L' (length L') = L'" by (rule closingMarkerLoop_none)
    have "Join (tl (Split code [10])) [10] = Join L' [10] @ Join ?B [10]"
      unfolding tl using L(2) Bne by (rule Join_glue)
    also have "\<dots> = Join L' [10] @ b" by (simp add: Join_Split)
    finally have "TrimSpace (Join (tl (Split code [10])) [10]) = TrimSpace (Join L' [10])"
      using b(2) by (simp add: TrimSpace_append_spaces)
    with False b(3) L loop show ?thesis by (simp add: stripCodeBlock_trimmed)
  qed
qed

section \<open>Claims about response cleaning\<close>

text \<open>
  Claim C6, as amended.  \<open>stripCodeBlock\<close> looks for a fenced block only at the start of
  the trimmed input.  (1) If the trimmed input consists of an opening fence line (the fence
  and an optional language tag), the lines \<open>body\<close>, a line that trims to the closing fence,
  and possibly further lines none of which is a fence, the result is the text between the
  fences, trimmed.  (2) If the trimmed input is only the opening fence line, the result is
  empty.  (3) If the input contains no fence marker at all, the result is the trimmed input.
\<close>

theorem stripCodeBlock_cleaning:
  "(TrimSpace codeA =
      Join ((str ''```'' @ tag) # body @ closeLine # trailing) (str ''\<newline>'') \<and>
    (\<forall>l\<in>set (tag # body @ closeLine # trailing). 10 \<notin> set l) \<and>
    TrimSpace closeLine = str ''```'' \<and>
    (\<forall>l\<in>set trailing. TrimSpace l \<noteq> str ''```'')
      \<longrightarrow> stripCodeBlock codeA = TrimSpace (Join body (str ''\<newline>''))) \<and>
   (TrimSpace codeB = str ''```'' @ tagB \<and> 10 \<notin> set tagB \<longrightarrow> stripCodeBlock codeB = []) \<and>
   (\<not> Contains codeC (str ''```'') \<longrightarrow> stripCodeBlock codeC = TrimSpace codeC)"
  using stripCodeBlock_fenced [of codeA tag body closeLine trailing]
    stripCodeBlock_opening_only [of codeB tagB] stripCodeBlock_no_fence [of codeC]
  by blast

text \<open>The three cases of C6 on concrete responses.\<close>

theorem stripCodeBlock_cleaning_witness:
  "stripCodeBlock (str '' ```go\<newline>x := 1\<newline>\<newline>y\<newline>  ```\<newline>Done. '') = str ''x := 1\<newline>\<newline>y'' \<and>
   stripCodeBlock (str ''```go  '') = [] \<and>
   stripCodeBlock (str ''  plain text\<newline>'') = str ''plain text''"
proof -
  let ?A = "str '' ```go\<newline>x := 1\<newline>\<newline>y\<newline>  ```\<newline>Done. ''"
  let ?body = "[str ''x := 1'', [], str ''y'']"
  have a1: "TrimSpace ?A = Join ((str ''```'' @ str ''go'') # ?body @ str ''  ```'' # [str ''Done.'']) (str ''\<newline>'')"
    by code_simp
  have a2: "\<forall>l\<in>set (str ''go'' # ?body @ str ''  ```'' # [str ''Done.'']). 10 \<notin> set l"
    by code_simp
  have a3: "TrimSpace (str ''  ```'') = str ''```''" by code_simp
  have a4: "\<forall>l\<in>set [str ''Done.'']. TrimSpace l \<noteq> str ''```''" by code_simp
  have a5: "TrimSpace (Join ?body (str ''\<newline>'')) = str ''x := 1\<newline>\<newline>y''" by code_simp
  have b1: "TrimSpace (str ''```go  '') = str ''```'' @ str ''go''" by code_simp
  have b2: "10 \<notin> set (str ''go'')" by code_simp
  have c1: "\<not> Contains (str ''  plain text\<newline>'') (str ''```'')" by code_simp
  have c2: "TrimSpace (str ''  plain text\<newline>'') = str ''plain text''" by code_simp
  from stripCodeBlock_cleaning [of ?A "str ''go''" ?body "str ''  ```''" "[str ''Done.'']"
      "str ''```go  ''" "str ''go''" "str ''  plain text\<newline>''"]
    a1 a2 a3 a4 b1 b2 c1
  have "stripCodeBlock ?A = TrimSpace (Join ?body (str ''\<newline>''))"
    and "stripCodeBlock (str ''```go  '') = []"
    and "stripCodeBlock (str ''  plain text\<newline>'') = TrimSpace (str ''  plain text\<newline>'')"
    by blast+
  with a5 c2 show ?thesis by (simp only:)
qed

text \<open>
  Claim C6 as stated fails for an input that contains a single fenced block after a line of
  prose: the input does not start with the fence, so it is returned whole (trimmed), fences
  included, and not the text between the fences.
\<close>

theorem stripCodeBlock_leading_prose_counterexample:
  "stripCodeBlock (str ''Here is the code:\<newline>```go\<newline>x := 1\<newline>```'')
     = str ''Here is the code:\<newline>```go\<newline>x := 1\<newline>```'' \<and>
   stripCodeBlock (str ''Here is the code:\<newline>```go\<newline>x := 1\<newline>```'')
     \<noteq> TrimSpace (str ''x := 1'')"
  by code_simp

text \<open>
  Claim C10.  For every input that starts with the opening fence marker, has at least one
  further line and has no line after the first that trims to the closing fence, the result of
  \<open>stripCodeBlock\<close> is all the lines after the opening line, joined by newlines and
  trimmed: the unterminated block is neither emptied nor rejected.
\<close>

theorem stripCodeBlock_unterminated_keeps_body:
  assumes "HasPrefix code (str ''```'')"
    and "length (Split code (str ''\<newline>'')) > 1"
    and "\<forall>l\<in>set (tl (Split code (str ''\<newline>''))). TrimSpace l \<noteq> str ''```''"
  shows "stripCodeBlock code = TrimSpace (Join (tl (Split code (str ''\<newline>''))) (str ''\<newline>''))"
  using assms by (rule stripCodeBlock_unterminated)

text \<open>C10 on an unterminated Python block.\<close>

theorem stripCodeBlock_unterminated_keeps_body_witness:
  "stripCodeBlock (str ''```python\<newline>def f():\<newline>    return 1\<newline> '')
     = str ''def f():\<newline>    return 1''"
proof -
  let ?c = "str ''```python\<newline>def f():\<newline>    return 1\<newline> ''"
  have 1: "HasPrefix ?c (str ''```'')" by code_simp
  have 2: "length (Split ?c (str ''\<newline>'')) > 1" by code_simp
  have 3: "\<forall>l\<in>set (tl (Split ?c (str ''\<newline>''))). TrimSpace l \<noteq> str ''```''" by code_simp
  have 4: "TrimSpace (Join (tl (Split ?c (str ''\<newline>''))) (str ''\<newline>'')) = str ''def f():\<newline>    return 1''"
    by code_simp
  from stripCodeBlock_unterminated_keeps_body [OF 1 2 3] 4 show ?thesis by (simp only:)
qed

section \<open>Properties of the generators\<close>

lemma ReplaceAll_hyphens_hit:
  "ReplaceAll (45 # 45 # r) [45, 45] [45] = 45 # ReplaceAll r [45, 45] [45]"
  by (subst ReplaceAll.simps) simp

lemma ReplaceAll_hyphens_miss:
  "\<not> prefix [45, 45] (x # xs) \<Longrightarrow>
   ReplaceAll (x # xs) [45, 45] [45] = x # ReplaceAll xs [45, 45] [45]"
  by (subst ReplaceAll.simps) auto

lemma set_ReplaceAll_hyphens: "set (ReplaceAll s [45, 45] [45]) \<subseteq> set s"
proof (induction s rule: length_induct)
  case (1 s)
  show ?case
  proof (cases s)
    case Nil
    then show ?thesis by (simp add: ReplaceAll.simps)
  next
    case (Cons x xs)
    show ?thesis
    proof (cases "prefix [45, 45] s")
      case True
      then obtain r where r: "s = 45 # 45 # r" by (auto simp: prefix_def)
      with 1 have "set (ReplaceAll r [45, 45] [45]) \<subseteq> set r" by simp
      with r show ?thesis by (auto simp: ReplaceAll_hyphens_hit)
    next
      case False
      from 1 Cons have "set (ReplaceAll xs [45, 45] [45]) \<subseteq> set xs" by simp
      with False Cons show ?thesis by (auto simp: ReplaceAll_hyphens_miss)
    qed
  qed
qed

lemma removeConsecutiveHyphens_none:
  "\<not> Contains (removeConsecutiveHyphens s) (str ''--'')"
proof (induction s rule: removeConsecutiveHyphens.induct)
  case (1 name)
  then show ?case by (subst removeConsecutiveHyphens.simps) simp
qed

lemma set_removeConsecutiveHyphens: "set (removeConsecutiveHyphens s) \<subseteq> set s"
proof (induction s rule: removeConsecutiveHyphens.induct)
  case (1 name)
  show ?case
  proof (cases "Contains name (str ''--'')")
    case True
    with 1 have "set (removeConsecutiveHyphens (ReplaceAll name (str ''--'') (str ''-'')))
        \<subseteq> set (ReplaceAll name (str ''--'') (str ''-''))" by simp
    also have "\<dots> \<subseteq> set name" using set_ReplaceAll_hyphens [of name] by simp
    finally show ?thesis using True by (subst removeConsecutiveHyphens.simps) simp
  next
    case False
    then show ?thesis by (subst removeConsecutiveHyphens.simps) simp
  qed
qed

lemma Trim_decomp:
  "\<exists>a b. s = a @ Trim s cutset @ b"
  unfolding Trim_def using trim_decomp [of s "\<lambda>r. r \<in> set cutset"] by blast

lemma set_Trim: "set (Trim s cutset) \<subseteq> set s"
  using Trim_decomp [of s cutset] by (metis Un_upper1 Un_upper2 set_append subset_trans)

lemma sublist_Trim: "sublist (Trim s cutset) s"
  using Trim_decomp [of s cutset] unfolding sublist_def by blast

lemma Trim_ends:
  "Trim s cutset = [] \<or> (hd (Trim s cutset) \<notin> set cutset \<and> last (Trim s cutset) \<notin> set cutset)"
  unfolding Trim_def by (rule trim_ends)

lemma validOrHyphen_valid:
  "(97 \<le> validOrHyphen r \<and> validOrHyphen r \<le> 122) \<or>
   (48 \<le> validOrHyphen r \<and> validOrHyphen r \<le> 57) \<or> validOrHyphen r = 45"
  by (simp add: validOrHyphen_def)

lemma sanitizeDirectoryName_props:
  fixes lowerTable raw
  defines "clean \<equiv> sanitizeDirectoryName lowerTable raw"
  shows "\<forall>r\<in>set clean. (97 \<le> r \<and> r \<le> 122) \<or> (48 \<le> r \<and> r \<le> 57) \<or> r = 45"
    and "\<not> Contains clean (str ''--'')"
    and "clean = [] \<or> (hd clean \<noteq> 45 \<and> last clean \<noteq> 45)"
proof -
  let ?m = "map validOrHyphen (ToLower lowerTable (TrimSpace (stripCodeBlock raw)))"
  let ?h = "removeConsecutiveHyphens ?m"
  have c: "clean = Trim ?h (str ''-'')"
    by (simp add: clean_def sanitizeDirectoryName_def Let_def)
  have "set clean \<subseteq> set ?m"
    unfolding c using set_Trim set_removeConsecutiveHyphens by (rule subset_trans)
  moreover have "\<forall>r\<in>set ?m. (97 \<le> r \<and> r \<le> 122) \<or> (48 \<le> r \<and> r \<le> 57) \<or> r = 45"
    using validOrHyphen_valid by auto
  ultimately show "\<forall>r\<in>set clean. (97 \<le> r \<and> r \<le> 122) \<or> (48 \<le> r \<and> r \<le> 57) \<or> r = 45"
    by blast
  show "\<not> Contains clean (str ''--'')"
  proof
    assume "Contains clean (str ''--'')"
    then have "sublist (str ''--'') (Trim ?h (str ''-''))" by (simp add: Contains_def c)
    then have "sublist (str ''--'') ?h"
      using sublist_Trim by (rule sublist_order.order_trans)
    then show False using removeConsecutiveHyphens_none [of ?m] by (simp add: Contains_def)
  qed
  show "clean = [] \<or> (hd clean \<noteq> 45 \<and> last clean \<noteq> 45)"
    using Trim_ends [of ?h "str ''-''"] by (simp add: c)
qed

lemma no_double_hyphen_prefix:
  fixes s :: gostring
  assumes "\<not> sublist [45, 45] s" and "s \<noteq> []" and "hd s \<noteq> 45"
  shows "\<not> sublist [45, 45] ([102, 110, 45] @ s)"
proof -
  from assms obtain x xs where "s = x # xs" "x \<noteq> 45" by (cases s) auto
  with assms(1) show ?thesis by (simp add: sublist_Cons_right)
qed

text \<open>
  Claim C7.  For every raw completion \<open>raw\<close> (and every case table for the non-ASCII code
  points), \<open>GenerateDirectoryName\<close> returns the name \<open>name\<close> such that: every rune of
  \<open>name\<close> is in \<open>a\<close>..\<open>z\<close>, \<open>0\<close>..\<open>9\<close> or is \<open>-\<close>; \<open>name\<close> has no two consecutive hyphens;
  a non-empty \<open>name\<close> neither starts nor ends with a hyphen and starts with a letter; and when
  the cleaned name \<open>clean\<close> is not empty and starts with a non-letter, \<open>name\<close> is \<open>fn-\<close>
  followed by \<open>clean\<close>, otherwise \<open>name\<close> is \<open>clean\<close>.
\<close>

theorem GenerateDirectoryName_slug:
  "(let clean = sanitizeDirectoryName lowerTable raw;
        name = ensureStartsWithLetter clean
    in GenerateDirectoryName lowerTable (Choices (raw # others)) = Inr name \<and>
       (\<forall>r\<in>set name. (97 \<le> r \<and> r \<le> 122) \<or> (48 \<le> r \<and> r \<le> 57) \<or> r = 45) \<and>
       \<not> Contains name (str ''--'') \<and>
       (name \<noteq> [] \<longrightarrow> hd name \<noteq> 45 \<and> last name \<noteq> 45 \<and> 97 \<le> hd name \<and> hd name \<le> 122) \<and>
       (clean \<noteq> [] \<and> \<not> (97 \<le> hd clean \<and> hd clean \<le> 122) \<longrightarrow> name = str ''fn-'' @ clean) \<and>
       (clean = [] \<or> (97 \<le> hd clean \<and> hd clean \<le> 122) \<longrightarrow> name = clean))"
proof -
  define clean where "clean = sanitizeDirectoryName lowerTable raw"
  define name where "name = ensureStartsWithLetter clean"
  note p = sanitizeDirectoryName_props [of lowerTable raw, folded clean_def]
  have g: "GenerateDirectoryName lowerTable (Choices (raw # others)) = Inr name"
    by (simp add: GenerateDirectoryName_def name_def clean_def)
  have hd0: "clean \<noteq> [] \<Longrightarrow> clean ! 0 = hd clean" by (simp add: hd_conv_nth)
  have pre: "clean \<noteq> [] \<and> \<not> (97 \<le> hd clean \<and> hd clean \<le> 122) \<longrightarrow> name = str ''fn-'' @ clean"
    using hd0 by (auto simp: name_def ensureStartsWithLetter_def)
  have nopre: "clean = [] \<or> (97 \<le> hd clean \<and> hd clean \<le> 122) \<longrightarrow> name = clean"
    using hd0 by (auto simp: name_def ensureStartsWithLetter_def)
  have chars: "\<forall>r\<in>set name. (97 \<le> r \<and> r \<le> 122) \<or> (48 \<le> r \<and> r \<le> 57) \<or> r = 45"
    using p(1) by (auto simp: name_def ensureStartsWithLetter_def)
  have dbl: "\<not> Contains name (str ''--'')"
  proof (cases "clean \<noteq> [] \<and> \<not> (97 \<le> hd clean \<and> hd clean \<le> 122)")
    case True
    with pre have n: "name = [102, 110, 45] @ clean" by simp
    from True p(3) have "hd clean \<noteq> 45" by simp
    with p(2) True have "\<not> sublist [45, 45] ([102, 110, 45] @ clean)"
      by (intro no_double_hyphen_prefix) (simp_all add: Contains_def)
    with n show ?thesis by (simp add: Contains_def)
  next
    case False
    with nopre have "name = clean" by blast
    with p(2) show ?thesis by simp
  qed
  have ends: "name \<noteq> [] \<longrightarrow> hd name \<noteq> 45 \<and> last name \<noteq> 45 \<and> 97 \<le> hd name \<and> hd name \<le> 122"
  proof (cases "clean \<noteq> [] \<and> \<not> (97 \<le> hd clean \<and> hd clean \<le> 122)")
    case True
    with pre have n: "name = [102, 110, 45] @ clean" by simp
    from True p(3) have "last clean \<noteq> 45" by simp
    with n True show ?thesis by simp
  next
    case False
    with nopre have "name = clean" by blast
    with p(3) False show ?thesis by auto
  qed
  from g chars dbl ends pre nopre show ?thesis
    unfolding Let_def clean_def [symmetric] name_def [symmetric] by blast
qed

text \<open>C7 on a fenced completion with capitals, spaces and punctuation, starting with a digit.\<close>

theorem GenerateDirectoryName_slug_witness:
  "GenerateDirectoryName id (Choices [str ''  ```\<newline>3 Add__Two  Numbers!!\<newline>``` ''])
     = Inr (str ''fn-3-add-two-numbers'') \<and>
   sanitizeDirectoryName id (str ''  ```\<newline>3 Add__Two  Numbers!!\<newline>``` '') = str ''3-add-two-numbers''"
proof -
  let ?raw = "str ''  ```\<newline>3 Add__Two  Numbers!!\<newline>``` ''"
  have c: "sanitizeDirectoryName id ?raw = str ''3-add-two-numbers''" by code_simp
  have n: "ensureStartsWithLetter (str ''3-add-two-numbers'') = str ''fn-3-add-two-numbers''"
    by code_simp
  from GenerateDirectoryName_slug [of id ?raw "[]"] c n show ?thesis
    by (simp only: Let_def)
qed

lemma partsLoop_impl_source:
  "fst (partsLoop parts (im, ts)) \<noteq> [] \<Longrightarrow> im \<noteq> [] \<or> hasSection parts (str ''IMPLEMENTATION'')"
proof (induction parts arbitrary: im ts)
  case Nil
  then show ?case by simp
next
  case (Cons p rest)
  show ?case
  proof (cases rest)
    case Nil
    with Cons.prems show ?thesis by (simp add: Let_def split: if_splits)
  next
    case (Cons q rest')
    with Cons.prems Cons.IH show ?thesis
      by (fastforce simp: Let_def split: if_splits)
  qed
qed

lemma partsLoop_tests_source:
  "snd (partsLoop parts (im, ts)) \<noteq> [] \<Longrightarrow> ts \<noteq> [] \<or> hasSection parts (str ''TESTS'')"
proof (induction parts arbitrary: im ts)
  case Nil
  then show ?case by simp
next
  case (Cons p rest)
  show ?case
  proof (cases rest)
    case Nil
    with Cons.prems show ?thesis by (simp add: Let_def split: if_splits)
  next
    case (Cons q rest')
    with Cons.prems Cons.IH show ?thesis
      by (fastforce simp: Let_def split: if_splits)
  qed
qed

lemma parseFixResponse_missing:
  assumes "\<not> hasSection (Split response (str ''---'')) (str ''IMPLEMENTATION'') \<or>
           \<not> hasSection (Split response (str ''---'')) (str ''TESTS'')"
  shows "parseFixResponse response = Inl InvalidResponseFormat \<or>
         parseFixResponse response = Inl ExtractionFailed"
proof -
  let ?parts = "Split response (str ''---'')"
  obtain im ts where r: "partsLoop ?parts ([], []) = (im, ts)" by (cases "partsLoop ?parts ([], [])")
  have "im = [] \<or> ts = []"
  proof (rule ccontr)
    assume "\<not> (im = [] \<or> ts = [])"
    then have "fst (partsLoop ?parts ([], [])) \<noteq> []" "snd (partsLoop ?parts ([], [])) \<noteq> []"
      using r by simp_all
    then have "hasSection ?parts (str ''IMPLEMENTATION'')" "hasSection ?parts (str ''TESTS'')"
      using partsLoop_impl_source [of ?parts "[]" "[]"] partsLoop_tests_source [of ?parts "[]" "[]"]
      by blast+
    with assms show False by blast
  qed
  with r show ?thesis by (auto simp: parseFixResponse_def Let_def)
qed

lemma Split_marked:
  fixes pre impl tests post :: gostring
  assumes "\<not> Contains (pre @ str ''--'') (str ''---'')"
    and "\<not> Contains (impl @ str ''--'') (str ''---'')"
    and "\<not> Contains (tests @ str ''--'') (str ''---'')"
    and "\<not> Contains post (str ''---'')"
  shows "Split (pre @ str ''---IMPLEMENTATION---'' @ impl @ str ''---TESTS---'' @ tests
                  @ str ''---END---'' @ post) (str ''---'')
         = [pre, str ''IMPLEMENTATION'', impl, str ''TESTS'', tests, str ''END'', post]"
proof -
  define sep :: gostring where "sep = str ''---''"
  define I :: gostring where "I = str ''IMPLEMENTATION''"
  define T :: gostring where "T = str ''TESTS''"
  define E :: gostring where "E = str ''END''"
  have sep: "sep \<noteq> []" "butlast sep = str ''--''" by (simp_all add: sep_def)
  have n1: "\<not> sublist sep (pre @ butlast sep)" using assms(1) by (simp add: sep Contains_def sep_def)
  have n2: "\<not> sublist sep (I @ butlast sep)" unfolding sep I_def sep_def by code_simp
  have n3: "\<not> sublist sep (impl @ butlast sep)" using assms(2) by (simp add: sep Contains_def sep_def)
  have n4: "\<not> sublist sep (T @ butlast sep)" unfolding sep T_def sep_def by code_simp
  have n5: "\<not> sublist sep (tests @ butlast sep)" using assms(3) by (simp add: sep Contains_def sep_def)
  have n6: "\<not> sublist sep (E @ butlast sep)" unfolding sep E_def sep_def by code_simp
  have n7: "\<not> sublist sep post" using assms(4) by (simp add: Contains_def sep_def)
  have "pre @ str ''---IMPLEMENTATION---'' @ impl @ str ''---TESTS---'' @ tests @ str ''---END---'' @ post
      = pre @ sep @ (I @ sep @ (impl @ sep @ (T @ sep @ (tests @ sep @ (E @ sep @ post)))))"
    by (simp add: sep_def I_def T_def E_def)
  moreover have "Split (pre @ sep @ (I @ sep @ (impl @ sep @ (T @ sep @ (tests @ sep @ (E @ sep @ post)))))) sep
      = [pre, I, impl, T, tests, E, post]"
    by (simp only: Split_first [OF sep(1) n1] Split_first [OF sep(1) n2] Split_first [OF sep(1) n3]
        Split_first [OF sep(1) n4] Split_first [OF sep(1) n5] Split_first [OF sep(1) n6]
        Split_none [OF sep(1) n7])
  ultimately show ?thesis by (simp only: sep_def I_def T_def E_def)
qed

lemma TrimSpace_markers:
  "TrimSpace (str ''IMPLEMENTATION'') = str ''IMPLEMENTATION''"
  "TrimSpace (str ''TESTS'') = str ''TESTS''"
  "TrimSpace (str ''END'') = str ''END''"
  by code_simp+

lemmas TrimSpace_markers_simp = TrimSpace_markers [simplified]

lemma parseFixResponse_well_formed:
  fixes pre impl tests post :: gostring
  assumes "\<not> Contains (pre @ str ''--'') (str ''---'')"
    and "\<not> Contains (impl @ str ''--'') (str ''---'')"
    and "\<not> Contains (tests @ str ''--'') (str ''---'')"
    and "\<not> Contains post (str ''---'')"
    and "stripCodeBlock impl \<noteq> []" and "stripCodeBlock tests \<noteq> []"
    and "TrimSpace impl \<noteq> str ''IMPLEMENTATION''"
    and "TrimSpace tests \<noteq> str ''IMPLEMENTATION''" and "TrimSpace tests \<noteq> str ''TESTS''"
  shows "parseFixResponse (pre @ str ''---IMPLEMENTATION---'' @ impl @ str ''---TESTS---'' @ tests
                  @ str ''---END---'' @ post)
         = Inr \<lparr>TestCode = stripCodeBlock tests, Code = stripCodeBlock impl\<rparr>"
proof -
  let ?parts = "[pre, str ''IMPLEMENTATION'', impl, str ''TESTS'', tests, str ''END'', post]"
  have tail: "partsLoop [str ''END'', post] (i, t) = (i, t)" for i t
    by (simp add: Let_def TrimSpace_markers_simp)
  have t4: "partsLoop [tests, str ''END'', post] (i, t) = (i, t)" for i t
    using assms(8,9) tail by (simp add: Let_def)
  have t3: "partsLoop [str ''TESTS'', tests, str ''END'', post] (i, t) = (i, stripCodeBlock tests)" for i t
    using t4 by (simp add: Let_def TrimSpace_markers_simp)
  have t2: "partsLoop [impl, str ''TESTS'', tests, str ''END'', post] (i, t) = (i, stripCodeBlock tests)" for i t
    using assms(7) t3 by (simp add: Let_def)
  have t1: "partsLoop [str ''IMPLEMENTATION'', impl, str ''TESTS'', tests, str ''END'', post] (i, t)
      = (stripCodeBlock impl, stripCodeBlock tests)" for i t
    using t2 by (simp add: Let_def TrimSpace_markers_simp)
  have "partsLoop ?parts ([], []) = (stripCodeBlock impl, stripCodeBlock tests)"
    using t1 by (simp add: Let_def)
  moreover note Split_marked [OF assms(1-4)]
  ultimately show ?thesis
    using assms(5,6) unfolding parseFixResponse_def Let_def by (simp only:) simp
qed

text \<open>
  Claim C4, as amended.  (1) If the response, split at \<open>---\<close>, has no part trimming to
  \<open>IMPLEMENTATION\<close> that is followed by a part cleaning to non-empty text, or no such part
  for \<open>TESTS\<close>, then \<open>FixBoth\<close> returns no \<open>FixResult\<close> but one of its two parse errors.
  (2) If the response is \<open>---IMPLEMENTATION---\<close>, the implementation section,
  \<open>---TESTS---\<close>, the tests section and \<open>---END---\<close>, possibly with text before and after,
  where no \<open>---\<close> occurs inside the sections or the surrounding text (nor is formed with the
  next marker), both sections clean to non-empty text and neither section is itself a marker
  word, then \<open>FixBoth\<close> returns both sections as \<open>stripCodeBlock\<close> cleans them.
\<close>

theorem FixBoth_parsing:
  fixes response pre impl tests post :: gostring
  shows
  "(\<not> hasSection (Split response (str ''---'')) (str ''IMPLEMENTATION'') \<or>
    \<not> hasSection (Split response (str ''---'')) (str ''TESTS'')
      \<longrightarrow> FixBoth (Choices (response # others)) = Inl InvalidResponseFormat \<or>
          FixBoth (Choices (response # others)) = Inl ExtractionFailed) \<and>
   (\<not> Contains (pre @ str ''--'') (str ''---'') \<and>
    \<not> Contains (impl @ str ''--'') (str ''---'') \<and>
    \<not> Contains (tests @ str ''--'') (str ''---'') \<and>
    \<not> Contains post (str ''---'') \<and>
    stripCodeBlock impl \<noteq> [] \<and> stripCodeBlock tests \<noteq> [] \<and>
    TrimSpace impl \<noteq> str ''IMPLEMENTATION'' \<and>
    TrimSpace tests \<noteq> str ''IMPLEMENTATION'' \<and> TrimSpace tests \<noteq> str ''TESTS''
      \<longrightarrow> FixBoth (Choices ((pre @ str ''---IMPLEMENTATION---'' @ impl @ str ''---TESTS---'' @ tests
                  @ str ''---END---'' @ post) # others))
          = Inr \<lparr>TestCode = stripCodeBlock tests, Code = stripCodeBlock impl\<rparr>)"
  using parseFixResponse_missing [of response]
    parseFixResponse_well_formed [of pre impl tests post]
  by (simp only: FixBoth_def GenerateCompletion.simps sum.case) blast

text \<open>
  C4 on a response without markers, on one whose tests section cleans to nothing, and on a
  well-formed one.
\<close>

theorem FixBoth_parsing_witness:
  "FixBoth (Choices [str ''Sorry, I cannot fix this.'']) = Inl InvalidResponseFormat \<and>
   FixBoth (Choices [str ''---IMPLEMENTATION---\<newline>x = 1\<newline>---TESTS---\<newline>```\<newline>---END---''])
     = Inl ExtractionFailed \<and>
   FixBoth (Choices [str ''---IMPLEMENTATION---\<newline>```go\<newline>func Add(a, b int) int { return a + b }\<newline>```\<newline>---TESTS---\<newline>func TestAdd(t *testing.T) {}\<newline>---END---\<newline>''])
     = Inr \<lparr>TestCode = str ''func TestAdd(t *testing.T) {}'',
            Code = str ''func Add(a, b int) int { return a + b }''\<rparr>"
proof -
  let ?r1 = "str ''Sorry, I cannot fix this.''"
  let ?r2 = "str ''---IMPLEMENTATION---\<newline>x = 1\<newline>---TESTS---\<newline>```\<newline>---END---''"
  let ?impl = "str ''\<newline>```go\<newline>func Add(a, b int) int { return a + b }\<newline>```\<newline>''"
  let ?tests = "str ''\<newline>func TestAdd(t *testing.T) {}\<newline>''"
  let ?post = "str ''\<newline>''"
  have h1: "\<not> hasSection (Split ?r1 (str ''---'')) (str ''IMPLEMENTATION'')" by code_simp
  have n1: "FixBoth (Choices [?r1]) \<noteq> Inl ExtractionFailed" by code_simp
  have h2: "\<not> hasSection (Split ?r2 (str ''---'')) (str ''TESTS'')" by code_simp
  have n2: "FixBoth (Choices [?r2]) \<noteq> Inl InvalidResponseFormat" by code_simp
  have w: "\<not> Contains ([] @ str ''--'') (str ''---'')" "\<not> Contains (?impl @ str ''--'') (str ''---'')"
    "\<not> Contains (?tests @ str ''--'') (str ''---'')" "\<not> Contains ?post (str ''---'')"
    "stripCodeBlock ?impl \<noteq> []" "stripCodeBlock ?tests \<noteq> []"
    "TrimSpace ?impl \<noteq> str ''IMPLEMENTATION''"
    "TrimSpace ?tests \<noteq> str ''IMPLEMENTATION''" "TrimSpace ?tests \<noteq> str ''TESTS''"
    by code_simp+
  have v: "stripCodeBlock ?impl = str ''func Add(a, b int) int { return a + b }''"
    "stripCodeBlock ?tests = str ''func TestAdd(t *testing.T) {}''"
    by code_simp+
  have e: "[] @ str ''---IMPLEMENTATION---'' @ ?impl @ str ''---TESTS---'' @ ?tests @ str ''---END---'' @ ?post
    = str ''---IMPLEMENTATION---\<newline>```go\<newline>func Add(a, b int) int { return a + b }\<newline>```\<newline>---TESTS---\<newline>func TestAdd(t *testing.T) {}\<newline>---END---\<newline>''"
    by simp
  from FixBoth_parsing [where response = ?r1 and others = "[]"] h1 n1
  have 1: "FixBoth (Choices [?r1]) = Inl InvalidResponseFormat" by blast
  from FixBoth_parsing [where response = ?r2 and others = "[]"] h2 n2
  have 2: "FixBoth (Choices [?r2]) = Inl ExtractionFailed" by blast
  from FixBoth_parsing [where pre = "[]" and impl = ?impl and tests = ?tests and post = ?post and others = "[]"] w
  have 3: "FixBoth (Choices [[] @ str ''---IMPLEMENTATION---'' @ ?impl @ str ''---TESTS---'' @ ?tests @ str ''---END---'' @ ?post])
     = Inr \<lparr>TestCode = stripCodeBlock ?tests, Code = stripCodeBlock ?impl\<rparr>" by blast
  from 1 2 3 show ?thesis unfolding v e by (simp only:)
qed

text \<open>
  Claim C4 as stated fails for a well-formed response whose implementation section contains
  \<open>---\<close> (here in a comment): the section is cut at that place, and the \<open>FixResult\<close> holds
  only its first fragment, not the section cleaned.
\<close>

theorem FixBoth_separator_in_section_counterexample:
  "FixBoth (Choices [str ''---IMPLEMENTATION---\<newline># --- helper ---\<newline>x = 1\<newline>---TESTS---\<newline>assert x == 1\<newline>---END---''])
     = Inr \<lparr>TestCode = str ''assert x == 1'', Code = str ''#''\<rparr> \<and>
   stripCodeBlock (str ''\<newline># --- helper ---\<newline>x = 1\<newline>'') = str ''# --- helper ---\<newline>x = 1'' \<and>
   stripCodeBlock (str ''\<newline># --- helper ---\<newline>x = 1\<newline>'') \<noteq> str ''#''"
  by code_simp

section \<open>Properties of the session store\<close>

lemma added_to_snoc:
  "added_to (log @ [(c, r)]) sid =
     added_to log sid @
       (case (c, r) of
          (CallAdd env sessionID testCode code testLogs success, None) \<Rightarrow>
             if sessionID = sid then [(testCode, code, testLogs, success)] else []
        | _ \<Rightarrow> [])"
  by (induction log sid rule: added_to.induct) (auto split: store_call.splits option.splits)

lemma added_to_snoc_error [simp]: "added_to (log @ [(c, Some e)]) sid = added_to log sid"
  by (simp add: added_to_snoc split: store_call.splits)

lemma added_to_snoc_create [simp]:
  "added_to (log @ [(CallCreate env u d l, r)]) sid = added_to log sid"
  by (simp add: added_to_snoc)

lemma added_to_snoc_add [simp]:
  "added_to (log @ [(CallAdd env sessionID t c l s, None)]) sid =
     added_to log sid @ (if sessionID = sid then [(t, c, l, s)] else [])"
  by (simp add: added_to_snoc)










section \<open>Properties of the test runner and of the controller\<close>

lemma loopBody_cases [case_names run_error store_error pass fix_error write_error continue]:
  obtains
    err where
      "loopBody env workDir language sid i vars =
         ([RunTestsCalled i (Inl err)], Return (RunTestsFailed err), vars)"
  | result err vars' where
      "loopBody env workDir language sid i vars =
         ([RunTestsCalled i (Inr result)], Return (StoreIterationFailed err), vars')"
  | result vars' where "Success result" "success_v vars'"
      "loopBody env workDir language sid i vars =
         ([RunTestsCalled i (Inr result)], Break, vars')"
  | result err vars' where "\<not> Success result" "FixBoth (fix_completion env i) = Inl err"
      "loopBody env workDir language sid i vars =
         ([RunTestsCalled i (Inr result), FixBothCalled i (Inl err)], Return (FixFailed err), vars')"
  | result fr err evs vars' where "\<not> Success result" "FixBoth (fix_completion env i) = Inr fr"
      "evs = [] \<or> evs = [FilesWritten (TestCode fr) (Code fr)]"
      "loopBody env workDir language sid i vars =
         ([RunTestsCalled i (Inr result), FixBothCalled i (Inr fr)] @ evs,
          Return (WriteFilesFailed err), vars')"
  | result fr vars' where "\<not> Success result" "FixBoth (fix_completion env i) = Inr fr"
      "success_v vars' = success_v vars"
      "loopBody env workDir language sid i vars =
         ([RunTestsCalled i (Inr result), FixBothCalled i (Inr fr),
           FilesWritten (TestCode fr) (Code fr)], Next, vars')"
proof (cases "snd (RunTests (tests_os env i) workDir language)")
  case (Inl err)
  then have "loopBody env workDir language sid i vars =
         ([RunTestsCalled i (Inl err)], Return (RunTestsFailed err), vars)"
    by (simp add: loopBody_def)
  then show ?thesis by (rule that(1))
next
  case (Inr result)
  let ?vars = "vars\<lparr>lastTestOutput_v := Output result\<rparr>"
  obtain fs r where add: "AddIteration (store_v ?vars) (add_io env i) sid
                  (testCode_v ?vars) (code_v ?vars) (Output result) (Success result) = (fs, r)"
    by (cases "AddIteration (store_v ?vars) (add_io env i) sid
                  (testCode_v ?vars) (code_v ?vars) (Output result) (Success result)")
  show ?thesis
  proof (cases r)
    case (Some err)
    with Inr add have "loopBody env workDir language sid i vars =
         ([RunTestsCalled i (Inr result)], Return (StoreIterationFailed err), ?vars\<lparr>store_v := fs\<rparr>)"
      by (simp add: loopBody_def Let_def)
    then show ?thesis by (rule that(2))
  next
    case None
    show ?thesis
    proof (cases "Success result")
      case True
      with Inr add None have "loopBody env workDir language sid i vars =
         ([RunTestsCalled i (Inr result)], Break, ?vars\<lparr>store_v := fs, success_v := True\<rparr>)"
        by (simp add: loopBody_def Let_def)
      with True show ?thesis by (intro that(3)) simp_all
    next
      case False
      show ?thesis
      proof (cases "FixBoth (fix_completion env i)")
        case (Inl err)
        with Inr add None False have "loopBody env workDir language sid i vars =
         ([RunTestsCalled i (Inr result), FixBothCalled i (Inl err)], Return (FixFailed err),
          ?vars\<lparr>store_v := fs\<rparr>)"
          by (simp add: loopBody_def Let_def)
        with False Inl show ?thesis by (intro that(4))
      next
        case fx: (Inr fr)
        let ?v = "?vars\<lparr>store_v := fs, code_v := Code fr, testCode_v := TestCode fr\<rparr>"
        obtain evs w where wf: "writeFiles (write_files_ok env (Suc i)) (TestCode fr) (Code fr) language = (evs, w)"
          by (cases "writeFiles (write_files_ok env (Suc i)) (TestCode fr) (Code fr) language")
        show ?thesis
        proof (cases w)
          case None': None
          with wf have evs: "evs = [FilesWritten (TestCode fr) (Code fr)]"
            by (auto simp: writeFiles_def Let_def split: if_splits)
          from Inr add None False fx wf None' have "loopBody env workDir language sid i vars =
             ([RunTestsCalled i (Inr result), FixBothCalled i (Inr fr)] @ evs, Next, ?v)"
            by (simp add: loopBody_def Let_def)
          with evs have "loopBody env workDir language sid i vars =
             ([RunTestsCalled i (Inr result), FixBothCalled i (Inr fr),
               FilesWritten (TestCode fr) (Code fr)], Next, ?v)" by simp
          with False fx show ?thesis by (intro that(6)) simp_all
        next
          case (Some err)
          with wf have evs: "evs = [] \<or> evs = [FilesWritten (TestCode fr) (Code fr)]"
            by (auto simp: writeFiles_def Let_def split: if_splits)
          from Inr add None False fx wf Some have "loopBody env workDir language sid i vars =
             ([RunTestsCalled i (Inr result), FixBothCalled i (Inr fr)] @ evs,
              Return (WriteFilesFailed err), ?v)"
            by (simp add: loopBody_def Let_def)
          with False fx evs show ?thesis by (intro that(5))
        qed
      qed
    qed
  qed
qed

lemma stops_at_append_left:
  "\<forall>e\<in>set a. \<not> P e \<Longrightarrow> stops_at P (a @ b) = stops_at P b"
  by (induction a) simp_all

lemma stops_at_none: "\<forall>x\<in>set b. \<not> P x \<Longrightarrow> stops_at P b"
  by (induction b) simp_all

lemma stops_at_append_right:
  "stops_at P a \<Longrightarrow> \<forall>x\<in>set b. \<not> is_cycle x \<and> \<not> P x \<Longrightarrow> stops_at P (a @ b)"
  by (induction a) (auto simp: stops_at_none)

lemma stops_at_split:
  "stops_at P evs \<Longrightarrow> evs = pre @ e # post \<Longrightarrow> P e \<Longrightarrow> \<forall>x\<in>set post. \<not> is_cycle x"
proof (induction pre arbitrary: evs)
  case Nil
  then show ?case by simp
next
  case (Cons p pre)
  show ?case
  proof (cases "P p")
    case True
    with Cons.prems show ?thesis by simp
  next
    case False
    with Cons.prems have "stops_at P (pre @ e # post)" by simp
    then show ?thesis using Cons.prems(3) by (intro Cons.IH [OF _ refl])
  qed
qed

lemma iterationLoop_done:
  "\<not> i < maxIterations \<Longrightarrow> iterationLoop env workDir language sid i vars = ([], Inr vars)"
  by (simp add: iterationLoop.simps)

lemma iterationLoop_return:
  "i < maxIterations \<Longrightarrow> loopBody env workDir language sid i vars = (evs, Return err, vars') \<Longrightarrow>
   iterationLoop env workDir language sid i vars = (evs, Inl err)"
  by (subst iterationLoop.simps) simp

lemma iterationLoop_break:
  "i < maxIterations \<Longrightarrow> loopBody env workDir language sid i vars = (evs, Break, vars') \<Longrightarrow>
   iterationLoop env workDir language sid i vars = (evs, Inr vars')"
  by (subst iterationLoop.simps) simp

lemma iterationLoop_next:
  "i < maxIterations \<Longrightarrow> loopBody env workDir language sid i vars = (evs, Next, vars') \<Longrightarrow>
   iterationLoop env workDir language sid i vars =
     (evs @ fst (iterationLoop env workDir language sid (Suc i) vars'),
      snd (iterationLoop env workDir language sid (Suc i) vars'))"
  by (subst iterationLoop.simps) (simp split: prod.splits)

lemma iterationLoop_count:
  "length (filter is_run (fst (iterationLoop env workDir language sid i vars))) \<le> maxIterations - i"
proof (induction "maxIterations - i" arbitrary: i vars)
  case 0
  then show ?case by (simp add: iterationLoop_done)
next
  case (Suc k)
  then have lt: "i < maxIterations" and k: "k = maxIterations - Suc i" by simp_all
  show ?case
  proof (cases env workDir language sid i vars rule: loopBody_cases)
    case (continue result fr vars')
    from Suc.hyps(1) [OF k, of vars'] lt show ?thesis
      by (simp add: iterationLoop_next [OF lt continue(4)])
  qed (use lt in \<open>auto simp: iterationLoop_return iterationLoop_break\<close>)
qed

lemma iterationLoop_stops_at_pass:
  "stops_at is_pass (fst (iterationLoop env workDir language sid i vars))"
proof (induction "maxIterations - i" arbitrary: i vars)
  case 0
  then show ?case by (simp add: iterationLoop_done)
next
  case (Suc k)
  then have lt: "i < maxIterations" and k: "k = maxIterations - Suc i" by simp_all
  show ?case
  proof (cases env workDir language sid i vars rule: loopBody_cases)
    case (continue result fr vars')
    from Suc.hyps(1) [OF k, of vars'] continue(1) show ?thesis
      by (simp add: iterationLoop_next [OF lt continue(4)])
  next
    case (write_error result fr err evs vars')
    then show ?thesis using lt by (auto simp: iterationLoop_return)
  qed (use lt in \<open>simp_all add: iterationLoop_return iterationLoop_break\<close>)
qed

lemma iterationLoop_stops_at_failed_fix:
  "stops_at is_failed_fix (fst (iterationLoop env workDir language sid i vars))"
proof (induction "maxIterations - i" arbitrary: i vars)
  case 0
  then show ?case by (simp add: iterationLoop_done)
next
  case (Suc k)
  then have lt: "i < maxIterations" and k: "k = maxIterations - Suc i" by simp_all
  show ?case
  proof (cases env workDir language sid i vars rule: loopBody_cases)
    case (continue result fr vars')
    from Suc.hyps(1) [OF k, of vars'] show ?thesis
      by (simp add: iterationLoop_next [OF lt continue(4)])
  next
    case (write_error result fr err evs vars')
    then show ?thesis using lt by (auto simp: iterationLoop_return)
  qed (use lt in \<open>simp_all add: iterationLoop_return iterationLoop_break\<close>)
qed

lemma iterationLoop_fix_events:
  "FixBothCalled j r \<in> set (fst (iterationLoop env workDir language sid i vars)) \<Longrightarrow>
   r = FixBoth (fix_completion env j) \<and>
   (\<forall>err. r = Inl err \<longrightarrow> snd (iterationLoop env workDir language sid i vars) = Inl (FixFailed err))"
proof (induction "maxIterations - i" arbitrary: i vars)
  case 0
  then show ?case by (simp add: iterationLoop_done)
next
  case (Suc k)
  then have lt: "i < maxIterations" and k: "k = maxIterations - Suc i" by simp_all
  show ?case
  proof (cases env workDir language sid i vars rule: loopBody_cases)
    case (continue result fr vars')
    from Suc.hyps(1) [OF k, of vars'] Suc.prems continue(2) show ?thesis
      by (auto simp: iterationLoop_next [OF lt continue(4)])
  next
    case (write_error result fr err evs vars')
    then show ?thesis using lt Suc.prems by (auto simp: iterationLoop_return)
  qed (use lt Suc.prems in \<open>auto simp: iterationLoop_return iterationLoop_break\<close>)
qed

lemma iterationLoop_exhausted:
  "iterationLoop env workDir language sid i vars = (evs, Inr vars') \<Longrightarrow> \<not> success_v vars' \<Longrightarrow>
   length (filter is_run evs) = maxIterations - i \<and> (\<forall>e\<in>set evs. \<not> is_pass e)"
proof (induction "maxIterations - i" arbitrary: i vars evs)
  case 0
  then show ?case by (simp add: iterationLoop_done)
next
  case (Suc k)
  then have lt: "i < maxIterations" and k: "k = maxIterations - Suc i" by simp_all
  show ?case
  proof (cases env workDir language sid i vars rule: loopBody_cases)
    case (continue result fr vars1)
    obtain evs1 where r: "iterationLoop env workDir language sid (Suc i) vars1 = (evs1, Inr vars')"
      and e: "evs = [RunTestsCalled i (Inr result), FixBothCalled i (Inr fr),
           FilesWritten (TestCode fr) (Code fr)] @ evs1"
      using Suc.prems(1) iterationLoop_next [OF lt continue(4)]
      by (cases "iterationLoop env workDir language sid (Suc i) vars1") auto
    from Suc.hyps(1) [OF k r Suc.prems(2)] e continue(1) lt show ?thesis by auto
  qed (use lt Suc.prems in \<open>auto simp: iterationLoop_return iterationLoop_break\<close>)
qed

lemma iterationLoop_passed:
  "iterationLoop env workDir language sid i vars = (evs, Inr vars') \<Longrightarrow> success_v vars' \<Longrightarrow>
   \<not> success_v vars \<Longrightarrow> (\<exists>e\<in>set evs. is_pass e)"
proof (induction "maxIterations - i" arbitrary: i vars evs)
  case 0
  then show ?case by (simp add: iterationLoop_done)
next
  case (Suc k)
  then have lt: "i < maxIterations" and k: "k = maxIterations - Suc i" by simp_all
  show ?case
  proof (cases env workDir language sid i vars rule: loopBody_cases)
    case (continue result fr vars1)
    obtain evs1 where r: "iterationLoop env workDir language sid (Suc i) vars1 = (evs1, Inr vars')"
      and e: "evs = [RunTestsCalled i (Inr result), FixBothCalled i (Inr fr),
           FilesWritten (TestCode fr) (Code fr)] @ evs1"
      using Suc.prems(1) iterationLoop_next [OF lt continue(4)]
      by (cases "iterationLoop env workDir language sid (Suc i) vars1") auto
    from Suc.hyps(1) [OF k r Suc.prems(2)] e continue(3) Suc.prems(3) show ?thesis by auto
  qed (use lt Suc.prems in \<open>auto simp: iterationLoop_return iterationLoop_break\<close>)
qed

lemma PrepareWorkspace_ok:
  "PrepareWorkspace tmp os write_ok language = (evs, Inr workDir) \<Longrightarrow>
   evs = [WorkspaceCreated workDir]"
  by (auto simp: PrepareWorkspace_def split: option.splits if_splits prod.splits)

lemma PrepareWorkspace_failed:
  "PrepareWorkspace tmp os write_ok language = (evs, Inl err) \<Longrightarrow>
   evs = [] \<or> (\<exists>d. evs = [WorkspaceCreated d, WorkspaceRemoved d]) \<or>
   (\<exists>d. evs = [WorkspaceCreated d] \<and> language = str ''python'' \<and>
        (err = RequirementsWriteFailed \<or> err = PipInstallFailed))"
  by (auto simp: PrepareWorkspace_def initPythonEnv_def
      split: option.splits if_splits prod.splits)

lemma runInWorkspace_cases [case_names setup_failed first_write_failed loop_failed loop_done]:
  obtains
    err where "runInWorkspace env description language session fs workDir = ([], Inl err)"
  | t c err where
      "runInWorkspace env description language session fs workDir = ([FilesWritten t c], Inl err)"
  | t c vars0 evs err where
      "iterationLoop env workDir language (ID session) 0 vars0 = (evs, Inl err)"
      "runInWorkspace env description language session fs workDir = (FilesWritten t c # evs, Inl err)"
  | t c vars0 evs vars tail r where "\<not> success_v vars0"
      "iterationLoop env workDir language (ID session) 0 vars0 = (evs, Inr vars)"
      "runInWorkspace env description language session fs workDir = (FilesWritten t c # evs @ tail, r)"
      "(tail = [FinalFilesCopied] \<and> r = Inr (success_v vars)) \<or>
       (tail = [] \<and> (\<exists>e. r = Inl (CopyFinalFilesFailed e)))"
proof (cases "output_dir_ok env")
  case False
  then have "runInWorkspace env description language session fs workDir = ([], Inl OutputDirFailed)"
    by (simp add: runInWorkspace_def)
  then show ?thesis by (rule that(1))
next
  case out: True
  show ?thesis
  proof (cases "GenerateTests (tests_completion env)")
    case (Inl err)
    with out have "runInWorkspace env description language session fs workDir
        = ([], Inl (GenerateTestsFailed err))"
      by (simp add: runInWorkspace_def)
    then show ?thesis by (rule that(1))
  next
    case t: (Inr testCode)
    show ?thesis
    proof (cases "GenerateImplementation (code_completion env)")
      case (Inl err)
      with out t have "runInWorkspace env description language session fs workDir
          = ([], Inl (GenerateImplementationFailed err))"
        by (simp add: runInWorkspace_def)
      then show ?thesis by (rule that(1))
    next
      case c: (Inr code)
      obtain evs w where wf: "writeFiles (write_files_ok env 0) testCode code language = (evs, w)"
        by (cases "writeFiles (write_files_ok env 0) testCode code language")
      show ?thesis
      proof (cases w)
        case (Some err)
        with wf have "evs = [] \<or> evs = [FilesWritten testCode code]"
          by (auto simp: writeFiles_def Let_def split: if_splits)
        moreover from out t c wf Some
        have "runInWorkspace env description language session fs workDir
            = (evs, Inl (WriteFilesFailed err))"
          by (simp add: runInWorkspace_def)
        ultimately show ?thesis using that(1) that(2) by metis
      next
        case None
        with wf have evs: "evs = [FilesWritten testCode code]"
          by (auto simp: writeFiles_def Let_def split: if_splits)
        let ?vars0 = "\<lparr>testCode_v = testCode, code_v = code, success_v = False,
                          lastTestOutput_v = [], store_v = fs\<rparr>"
        obtain evs' r' where loop: "iterationLoop env workDir language (ID session) 0 ?vars0 = (evs', r')"
          by (cases "iterationLoop env workDir language (ID session) 0 ?vars0")
        show ?thesis
        proof (cases r')
          case (Inl err)
          with out t c wf None evs loop
          have "runInWorkspace env description language session fs workDir
              = (FilesWritten testCode code # evs', Inl err)"
            by (simp add: runInWorkspace_def)
          with loop Inl show ?thesis by (intro that(3)) simp_all
        next
          case (Inr vars)
          obtain tail cw where cp: "copyFinalFiles (copy_ok env) language = (tail, cw)"
            by (cases "copyFinalFiles (copy_ok env) language")
          have tl: "(tail = [FinalFilesCopied] \<and> cw = None) \<or> (tail = [] \<and> cw \<noteq> None)"
            using cp by (auto simp: copyFinalFiles_def Let_def split: if_splits)
          have run: "runInWorkspace env description language session fs workDir
              = (FilesWritten testCode code # evs' @ tail,
                 case cw of Some err \<Rightarrow> Inl (CopyFinalFilesFailed err) | None \<Rightarrow> Inr (success_v vars))"
            using out t c wf None evs loop Inr cp
            by (simp add: runInWorkspace_def split: option.splits)
          show ?thesis
          proof (rule that(4) [OF _ _ run])
            show "\<not> success_v ?vars0" by simp
            show "iterationLoop env workDir language (ID session) 0 ?vars0 = (evs', Inr vars)"
              using loop Inr by simp
            show "(tail = [FinalFilesCopied] \<and>
                 (case cw of Some err \<Rightarrow> Inl (CopyFinalFilesFailed err) | None \<Rightarrow> Inr (success_v vars))
                   = Inr (success_v vars)) \<or>
                (tail = [] \<and> (\<exists>e. (case cw of Some err \<Rightarrow> Inl (CopyFinalFilesFailed err)
                   | None \<Rightarrow> Inr (success_v vars)) = Inl (CopyFinalFilesFailed e)))"
              using tl by auto
          qed
        qed
      qed
    qed
  qed
qed

lemma runNew_cases [case_names no_workspace prepare_failed workspace]:
  obtains
    err where "runNew env = ([], Inl err)"
  | evs err language where
      "PrepareWorkspace (temp_dir env) (workspace_os env) (workspace_write_ok env) language
         = (evs, Inl err)"
      "runNew env = (evs, Inl (PrepareWorkspaceFailed err))"
  | description language session fs workDir evs r where
      "runInWorkspace env description language session fs workDir = (evs, r)"
      "runNew env = (WorkspaceCreated workDir # evs @ [WorkspaceRemoved workDir], r)"
proof -
  let ?description = "if length (args env) > 0 then args env ! 0
                else case description_line env of Some text \<Rightarrow> text | None \<Rightarrow> []"
  let ?language = "case language_line env of
                     Some text \<Rightarrow> ToLower (unicode_lower env) (TrimSpace text)
                   | None \<Rightarrow> []"
  consider (early) "\<not> api_key_set env \<or> \<not> home_dir_ok env \<or> \<not> storage_dir_ok env \<or>
      ?description = [] \<or> ?language = [] \<or> \<not> supportedLanguages ?language"
    | (go) "api_key_set env" "home_dir_ok env" "storage_dir_ok env" "?description \<noteq> []"
        "?language \<noteq> []" "supportedLanguages ?language"
    by blast
  then show ?thesis
  proof cases
    case early
    then have "\<exists>err. runNew env = ([], Inl err)"
      by (auto simp: runNew_def Let_def)
    then show ?thesis using that(1) by blast
  next
    case go
    obtain fs cr where cs: "CreateSession (stored env) (create_io env) (session_uuid env)
                      ?description ?language = (fs, cr)"
      by (cases "CreateSession (stored env) (create_io env) (session_uuid env) ?description ?language")
    show ?thesis
    proof (cases cr)
      case (Inl err)
      with go cs have "runNew env = ([], Inl (CreateSessionFailed err))"
        by (simp add: runNew_def Let_def)
      then show ?thesis by (rule that(1))
    next
      case (Inr session)
      obtain evs pr where pw: "PrepareWorkspace (temp_dir env) (workspace_os env)
                           (workspace_write_ok env) ?language = (evs, pr)"
        by (cases "PrepareWorkspace (temp_dir env) (workspace_os env) (workspace_write_ok env) ?language")
      show ?thesis
      proof (cases pr)
        case (Inl err)
        with go cs Inr pw have "runNew env = (evs, Inl (PrepareWorkspaceFailed err))"
          by (simp add: runNew_def Let_def)
        with pw Inl show ?thesis by (intro that(2)) simp_all
      next
        case ws: (Inr workDir)
        with pw have evs: "evs = [WorkspaceCreated workDir]" by (simp add: PrepareWorkspace_ok)
        obtain evs' r where rw: "runInWorkspace env ?description ?language session fs workDir = (evs', r)"
          by (cases "runInWorkspace env ?description ?language session fs workDir")
        with go cs Inr pw ws evs
        have "runNew env = (WorkspaceCreated workDir # evs' @ [WorkspaceRemoved workDir], r)"
          by (simp add: runNew_def Let_def)
        with rw show ?thesis by (intro that(3))
      qed
    qed
  qed
qed

lemma PrepareWorkspace_failed_events:
  "PrepareWorkspace tmp os write_ok language = (evs, Inl err) \<Longrightarrow>
   \<forall>e\<in>set evs. \<not> is_cycle e \<and> \<not> is_run e \<and> \<not> is_pass e \<and> \<not> is_failed_fix e"
  by (drule PrepareWorkspace_failed) auto

lemma runNew_run_count: "length (filter is_run (fst (runNew env))) \<le> 5"
proof (cases env rule: runNew_cases)
  case (no_workspace err)
  then show ?thesis by simp
next
  case (prepare_failed evs err language)
  from PrepareWorkspace_failed_events [OF prepare_failed(1)]
  have "filter is_run evs = []" by (simp add: filter_empty_conv)
  with prepare_failed(2) show ?thesis by simp
next
  case (workspace description language session fs workDir evs r)
  from workspace(1) have "length (filter is_run evs) \<le> 5"
  proof (cases env description language session fs workDir rule: runInWorkspace_cases)
    case (loop_failed t c vars0 evs' err)
    with iterationLoop_count [of env workDir language "ID session" 0 vars0] workspace(1)
    show ?thesis by (auto simp: maxIterations_def)
  next
    case (loop_done t c vars0 evs' vars tail r')
    with iterationLoop_count [of env workDir language "ID session" 0 vars0] workspace(1)
    show ?thesis by (auto simp: maxIterations_def)
  qed auto
  with workspace(2) show ?thesis by simp
qed

lemma runNew_exhausted:
  assumes ex: "snd (runNew env) = Inr False"
  shows "length (filter is_run (fst (runNew env))) = 5 \<and>
      (\<forall>e\<in>set (fst (runNew env)). \<not> is_pass e) \<and>
      FinalFilesCopied \<in> set (fst (runNew env))"
proof (cases env rule: runNew_cases)
  case (no_workspace err)
  with ex show ?thesis by simp
next
  case (prepare_failed evs err language)
  with ex show ?thesis by simp
next
  case (workspace description language session fs workDir evs r)
  with ex have r: "r = Inr False" by simp
  from workspace(1) r
  have "length (filter is_run evs) = 5 \<and> (\<forall>e\<in>set evs. \<not> is_pass e) \<and> FinalFilesCopied \<in> set evs"
  proof (cases env description language session fs workDir rule: runInWorkspace_cases)
    case (loop_done t c vars0 evs' vars tail r')
    with workspace(1) r have tail: "tail = [FinalFilesCopied]" and s: "\<not> success_v vars" by auto
    from iterationLoop_exhausted [OF loop_done(2) s] loop_done(3) workspace(1) tail
    show ?thesis by (auto simp: maxIterations_def)
  qed auto
  with workspace(2) show ?thesis by simp
qed

text \<open>
  Claim C2.  In every run of \<open>runNew\<close>, whatever the environment answers, \<open>RunTests\<close> is called
  at most 5 times (\<open>maxIterations\<close>).  With the counter at 5 the loop ends at once, leaving
  its variables as they are.  And when the run returns no error with \<open>success\<close> false
  (exhaustion), exactly 5 test runs were made, none of them passed, and the final files were
  copied.  (\<open>runNew\<close> is a total function: every run ends.)
\<close>

theorem runNew_test_runs_bounded:
  "length (filter is_run (fst (runNew env))) \<le> 5 \<and>
   iterationLoop env workDir language sid 5 vars = ([], Inr vars) \<and>
   (snd (runNew env) = Inr False \<longrightarrow>
      length (filter is_run (fst (runNew env))) = 5 \<and>
      (\<forall>e\<in>set (fst (runNew env)). \<not> is_pass e) \<and>
      FinalFilesCopied \<in> set (fst (runNew env)))"
proof -
  have "iterationLoop env workDir language sid 5 vars = ([], Inr vars)"
    by (rule iterationLoop_done) (simp add: maxIterations_def)
  with runNew_run_count [of env] runNew_exhausted [of env] show ?thesis by blast
qed

text \<open>C2 on the run in which no test run passes: it is exhausted after 5 test runs.\<close>

theorem runNew_test_runs_bounded_witness:
  "snd (runNew (base_env (\<lambda>i. False))) = Inr False \<and>
   length (filter is_run (fst (runNew (base_env (\<lambda>i. False))))) = 5 \<and>
   FinalFilesCopied \<in> set (fst (runNew (base_env (\<lambda>i. False))))"
proof -
  have h: "snd (runNew (base_env (\<lambda>i. False))) = Inr False" by code_simp
  with runNew_test_runs_bounded [of "base_env (\<lambda>i. False)"] show ?thesis by blast
qed

lemma runNew_stops_at:
  assumes loop: "\<And>workDir language sid vars.
      stops_at P (fst (iterationLoop env workDir language sid 0 vars))"
    and P: "\<And>e. P e \<Longrightarrow> is_run e \<or> is_failed_fix e"
  shows "stops_at P (fst (runNew env))"
proof -
  have nP: "\<not> P e" if "\<not> is_cycle e" for e
    using that P [of e] by (cases e) auto
  have nW: "\<not> P (FilesWritten t c)" for t c using P [of "FilesWritten t c"] by auto
  show ?thesis
  proof (cases env rule: runNew_cases)
    case (no_workspace err)
    then show ?thesis by simp
  next
    case (prepare_failed evs err language)
    from PrepareWorkspace_failed_events [OF prepare_failed(1)] nP
    have "\<forall>e\<in>set evs. \<not> P e" by blast
    with prepare_failed(2) show ?thesis by (simp add: stops_at_none)
  next
    case (workspace description language session fs workDir evs r)
    have "stops_at P evs"
      using workspace(1)
    proof (cases env description language session fs workDir rule: runInWorkspace_cases)
      case (setup_failed err)
      with workspace(1) show ?thesis by auto
    next
      case (first_write_failed t c err)
      with workspace(1) nW show ?thesis by auto
    next
      case (loop_failed t c vars0 evs' err)
      with workspace(1) loop [of workDir language "ID session" vars0] nW
      show ?thesis by auto
    next
      case (loop_done t c vars0 evs' vars tail r')
      have "stops_at P (evs' @ tail)"
      proof (rule stops_at_append_right)
        show "stops_at P evs'"
          using loop [of workDir language "ID session" vars0] loop_done(2) by simp
        show "\<forall>x\<in>set tail. \<not> is_cycle x \<and> \<not> P x" using loop_done(4) nP by auto
      qed
      with workspace(1) loop_done(3) nW show ?thesis by auto
    qed
    then have "stops_at P (evs @ [WorkspaceRemoved workDir])"
      by (rule stops_at_append_right) (use nP in auto)
    moreover have "\<not> P (WorkspaceCreated workDir)" using nP by simp
    ultimately show ?thesis using workspace(2) by simp
  qed
qed

text \<open>
  Claim C3.  In every run, after a call of \<open>RunTests\<close> that returned a result with
  \<open>Success\<close> true, no further test run, no repair call and no write into the workspace
  follows, whatever the loop counter; and the run does not end exhausted.
\<close>

theorem runNew_stops_after_pass:
  "fst (runNew env) = pre @ RunTestsCalled i (Inr result) # post \<and> Success result
     \<longrightarrow> (\<forall>e\<in>set post. \<not> is_cycle e) \<and> snd (runNew env) \<noteq> Inr False"
proof (intro impI conjI)
  assume a: "fst (runNew env) = pre @ RunTestsCalled i (Inr result) # post \<and> Success result"
  have "stops_at is_pass (fst (runNew env))"
  proof (rule runNew_stops_at)
    show "is_run e \<or> is_failed_fix e" if "is_pass e" for e
      using that by (cases e) auto
  qed (rule iterationLoop_stops_at_pass)
  with a show "\<forall>e\<in>set post. \<not> is_cycle e"
    using stops_at_split [of is_pass "fst (runNew env)" pre "RunTestsCalled i (Inr result)" post]
    by simp
  show "snd (runNew env) \<noteq> Inr False"
  proof
    assume "snd (runNew env) = Inr False"
    with runNew_exhausted [of env] a show False by auto
  qed
qed

text \<open>C3 on the run whose second test run passes: only the copy and the clean-up follow.\<close>

theorem runNew_stops_after_pass_witness:
  "runNew (base_env (\<lambda>i. i = 1)) = (passed_trace, Inr True) \<and>
   \<not> is_cycle FinalFilesCopied \<and> \<not> is_cycle (WorkspaceRemoved (str ''/tmp/aiterate-1''))"
proof -
  let ?pre = "take 5 passed_trace"
  let ?post = "[FinalFilesCopied, WorkspaceRemoved (str ''/tmp/aiterate-1'')]"
  let ?result = "\<lparr>Success = True, Output = str ''ok''\<rparr>"
  have r: "runNew (base_env (\<lambda>i. i = 1)) = (passed_trace, Inr True)" by code_simp
  have d: "passed_trace = ?pre @ RunTestsCalled 1 (Inr ?result) # ?post"
    by (simp add: passed_trace_def)
  have "fst (runNew (base_env (\<lambda>i. i = 1))) = ?pre @ RunTestsCalled 1 (Inr ?result) # ?post"
    using r d by simp
  moreover have "Success ?result" by simp
  ultimately have "\<forall>e\<in>set ?post. \<not> is_cycle e"
    using runNew_stops_after_pass [of "base_env (\<lambda>i. i = 1)" ?pre 1 ?result ?post] by blast
  with r show ?thesis by simp
qed

lemma runNew_fix_events:
  assumes "FixBothCalled j r \<in> set (fst (runNew env))"
  shows "r = FixBoth (fix_completion env j) \<and>
         (\<forall>err. r = Inl err \<longrightarrow> snd (runNew env) = Inl (FixFailed err))"
proof (cases env rule: runNew_cases)
  case (no_workspace err)
  with assms show ?thesis by simp
next
  case (prepare_failed evs err language)
  from PrepareWorkspace_failed_events [OF prepare_failed(1)] assms prepare_failed(2)
  show ?thesis by auto
next
  case (workspace description language session fs workDir evs r')
  with assms have in_evs: "FixBothCalled j r \<in> set evs" by auto
  from workspace(1) in_evs
  have "r = FixBoth (fix_completion env j) \<and> (\<forall>err. r = Inl err \<longrightarrow> r' = Inl (FixFailed err))"
  proof (cases env description language session fs workDir rule: runInWorkspace_cases)
    case (loop_failed t c vars0 evs' err)
    with workspace(1) in_evs have "FixBothCalled j r \<in> set (fst (iterationLoop env workDir language (ID session) 0 vars0))"
      by auto
    from iterationLoop_fix_events [OF this] loop_failed workspace(1) show ?thesis by auto
  next
    case (loop_done t c vars0 evs' vars tail r'')
    with workspace(1) in_evs have "FixBothCalled j r \<in> set (fst (iterationLoop env workDir language (ID session) 0 vars0))"
      by auto
    from iterationLoop_fix_events [OF this] loop_done workspace(1) show ?thesis by auto
  qed auto
  with workspace(2) show ?thesis by simp
qed

text \<open>
  Claim C9, as amended: the repair call only.  In every run, if \<open>FixBoth\<close> is called in loop
  pass \<open>i\<close> and the completion it gets has no implementation section or no tests section
  that cleans to non-empty text, then \<open>FixBoth\<close> returns an error, \<open>runNew\<close> returns that
  error as its failure, and after the call nothing is written into the workspace and no
  test is run.
\<close>

theorem runNew_aborts_on_empty_repair:
  "fst (runNew env) = pre @ FixBothCalled i r # post \<and>
   fix_completion env i = Choices (response # others) \<and>
   (\<not> hasSection (Split response (str ''---'')) (str ''IMPLEMENTATION'') \<or>
    \<not> hasSection (Split response (str ''---'')) (str ''TESTS''))
     \<longrightarrow> (\<exists>err. r = Inl err \<and> snd (runNew env) = Inl (FixFailed err)) \<and>
         (\<forall>e\<in>set post. \<not> is_cycle e)"
proof (intro impI)
  assume a: "fst (runNew env) = pre @ FixBothCalled i r # post \<and>
   fix_completion env i = Choices (response # others) \<and>
   (\<not> hasSection (Split response (str ''---'')) (str ''IMPLEMENTATION'') \<or>
    \<not> hasSection (Split response (str ''---'')) (str ''TESTS''))"
  then have "FixBothCalled i r \<in> set (fst (runNew env))" by simp
  from runNew_fix_events [OF this]
  have r: "r = FixBoth (fix_completion env i)"
    and f: "\<forall>err. r = Inl err \<longrightarrow> snd (runNew env) = Inl (FixFailed err)" by blast+
  from a have "parseFixResponse response = Inl InvalidResponseFormat \<or>
         parseFixResponse response = Inl ExtractionFailed"
    by (intro parseFixResponse_missing) blast
  with a r have "\<exists>err. r = Inl err" by (auto simp: FixBoth_def)
  then obtain err where err: "r = Inl err" by blast
  have "stops_at is_failed_fix (fst (runNew env))"
  proof (rule runNew_stops_at)
    show "is_run e \<or> is_failed_fix e" if "is_failed_fix e" for e using that by simp
  qed (rule iterationLoop_stops_at_failed_fix)
  with a err have "\<forall>e\<in>set post. \<not> is_cycle e"
    using stops_at_split [of is_failed_fix "fst (runNew env)" pre "FixBothCalled i r" post]
    by simp
  with err f show "(\<exists>err. r = Inl err \<and> snd (runNew env) = Inl (FixFailed err)) \<and>
         (\<forall>e\<in>set post. \<not> is_cycle e)" by blast
qed

text \<open>C9 on the run whose first repair response has an empty tests section.\<close>

theorem runNew_aborts_on_empty_repair_witness:
  "runNew ((base_env (\<lambda>i. False))\<lparr>fix_completion := \<lambda>i. Choices [empty_tests_fix]\<rparr>)
     = (aborted_trace, Inl (FixFailed ExtractionFailed)) \<and>
   \<not> hasSection (Split empty_tests_fix (str ''---'')) (str ''TESTS'')"
proof -
  let ?env = "(base_env (\<lambda>i. False))\<lparr>fix_completion := \<lambda>i. Choices [empty_tests_fix]\<rparr>"
  let ?pre = "take 3 aborted_trace"
  let ?post = "[WorkspaceRemoved (str ''/tmp/aiterate-1'')]"
  have t: "fst (runNew ?env) = aborted_trace" by code_simp
  have d: "aborted_trace = ?pre @ FixBothCalled 0 (Inl ExtractionFailed) # ?post"
    by (simp add: aborted_trace_def)
  have c: "fix_completion ?env 0 = Choices (empty_tests_fix # [])" by simp
  have h: "\<not> hasSection (Split empty_tests_fix (str ''---'')) (str ''TESTS'')" by code_simp
  from runNew_aborts_on_empty_repair [of ?env ?pre 0 "Inl ExtractionFailed" ?post empty_tests_fix "[]"]
    t d c h
  have "\<exists>err. Inl ExtractionFailed = (Inl err :: gen_error + FixResult) \<and> snd (runNew ?env) = Inl (FixFailed err)"
    by (simp only:) blast
  then have "snd (runNew ?env) = Inl (FixFailed ExtractionFailed)" by auto
  with t h show ?thesis by (metis prod.collapse)
qed

text \<open>
  Claim C9 as stated fails for test generation: a completion that is only an opening fence
  cleans to the empty string, \<open>GenerateTests\<close> returns it with no error, and \<open>runNew\<close> writes
  the empty test source into the workspace and runs the tests against it.
\<close>

theorem runNew_writes_empty_tests_counterexample:
  "GenerateTests (tests_completion ((base_env (\<lambda>i. True))\<lparr>tests_completion := Choices [str ''```'']\<rparr>))
     = Inr [] \<and>
   runNew ((base_env (\<lambda>i. True))\<lparr>tests_completion := Choices [str ''```'']\<rparr>)
     = ([WorkspaceCreated (str ''/tmp/aiterate-1''),
         FilesWritten [] (str ''package main''),
         RunTestsCalled 0 (Inr \<lparr>Success = True, Output = str ''ok''\<rparr>),
         FinalFilesCopied,
         WorkspaceRemoved (str ''/tmp/aiterate-1'')], Inr True)"
  by code_simp

lemma iterationLoop_all_cycle:
  "\<forall>e\<in>set (fst (iterationLoop env workDir language sid i vars)). is_cycle e"
proof (induction "maxIterations - i" arbitrary: i vars)
  case 0
  then show ?case by (simp add: iterationLoop_done)
next
  case (Suc k)
  then have lt: "i < maxIterations" and k: "k = maxIterations - Suc i" by simp_all
  show ?case
  proof (cases env workDir language sid i vars rule: loopBody_cases)
    case (continue result fr vars')
    from Suc.hyps(1) [OF k, of vars'] show ?thesis
      by (simp add: iterationLoop_next [OF lt continue(4)])
  qed (use lt in \<open>auto simp: iterationLoop_return iterationLoop_break\<close>)
qed

lemma runInWorkspace_no_workspace_events:
  assumes "runInWorkspace env description language session fs workDir = (evs, r)"
  shows "WorkspaceCreated d \<notin> set evs"
  using assms
proof (cases env description language session fs workDir rule: runInWorkspace_cases)
  case (loop_failed t c vars0 evs' err)
  have "\<not> is_cycle (WorkspaceCreated d)" by simp
  with iterationLoop_all_cycle [of env workDir language "ID session" 0 vars0] loop_failed
  have "WorkspaceCreated d \<notin> set evs'" by fastforce
  with loop_failed assms show ?thesis by auto
next
  case (loop_done t c vars0 evs' vars tail r')
  have "\<not> is_cycle (WorkspaceCreated d)" by simp
  with iterationLoop_all_cycle [of env workDir language "ID session" 0 vars0] loop_done
  have "WorkspaceCreated d \<notin> set evs'" by fastforce
  with loop_done assms show ?thesis by auto
qed auto

lemma runNew_workspace_removed:
  assumes "WorkspaceCreated d \<in> set (fst (runNew env))"
  shows "WorkspaceRemoved d \<in> set (fst (runNew env)) \<or>
         snd (runNew env) = Inl (PrepareWorkspaceFailed RequirementsWriteFailed) \<or>
         snd (runNew env) = Inl (PrepareWorkspaceFailed PipInstallFailed)"
proof (cases env rule: runNew_cases)
  case (no_workspace err)
  with assms show ?thesis by simp
next
  case (prepare_failed evs err language)
  from PrepareWorkspace_failed [OF prepare_failed(1)] assms prepare_failed(2)
  show ?thesis by auto
next
  case (workspace description language session fs workDir evs r)
  from runInWorkspace_no_workspace_events [OF workspace(1)] assms workspace(2)
  show ?thesis by auto
qed

text \<open>
  Claim C8 fails on the code at this input: for Python, when the initialisation of the
  workspace fails, \<open>PrepareWorkspace\<close> returns the error without removing the directory it
  made (the Go branch removes it), and \<open>runNew\<close> returns before its deferred clean-up is
  registered.  By \<open>runNew_workspace_removed\<close> this is the only way a workspace is left
  behind.
\<close>

theorem runNew_python_workspace_left_behind:
  "runNew pip_fails_env =
     ([WorkspaceCreated (str ''/tmp/aiterate-1'')], Inl (PrepareWorkspaceFailed PipInstallFailed)) \<and>
   WorkspaceRemoved (str ''/tmp/aiterate-1'') \<notin> set (fst (runNew pip_fails_env))"
  by code_simp

text \<open>
  Claim C5, as amended.  \<open>RunTests\<close> returns an error if and only if the language is neither
  \<open>go\<close> nor \<open>python\<close>, and then no process is run.  For \<open>go\<close> and \<open>python\<close> it runs the test
  command and returns a \<open>TestResult\<close> with no error: \<open>Success\<close> is true if and only if the
  process ran and exited with status zero, so a process that could not be started gives
  \<open>Success\<close> false like a non-zero exit; \<open>Output\<close> is standard output followed by standard
  error.
\<close>

theorem RunTests_results:
  "((\<exists>err. snd (RunTests os workDir language) = Inl err) \<longleftrightarrow>
      language \<noteq> str ''go'' \<and> language \<noteq> str ''python'') \<and>
   (language \<noteq> str ''go'' \<and> language \<noteq> str ''python'' \<longrightarrow>
      RunTests os workDir language = ([], Inl (UnsupportedLanguage language))) \<and>
   (language = str ''go'' \<or> language = str ''python'' \<longrightarrow>
      RunTests os workDir language =
        ([test_command language workDir],
         Inr \<lparr>Success = exited_zero (os (test_command language workDir)),
              Output = combined_output (os (test_command language workDir))\<rparr>))"
proof -
  have "runTestCommand os cmd =
      ([cmd], Inr \<lparr>Success = exited_zero (os cmd), Output = combined_output (os cmd)\<rparr>)" for cmd
    by (cases "os cmd") (simp_all add: runTestCommand_def)
  then show ?thesis
    by (auto simp: RunTests_def test_command_def)
qed

text \<open>C5 on a failing Go test run and on an unsupported language.\<close>

theorem RunTests_results_witness:
  "RunTests (\<lambda>cmd. Exited 1 (str ''FAIL'') (str ''exit status 1'')) (str ''/tmp/w'') (str ''go'')
     = ([(str ''go'', [str ''test'', str ''-v'', str ''./...''], str ''/tmp/w'')],
        Inr \<lparr>Success = False, Output = str ''FAILexit status 1''\<rparr>) \<and>
   RunTests (\<lambda>cmd. Exited 0 (str ''ok'') []) (str ''/tmp/w'') (str ''rust'')
     = ([], Inl (UnsupportedLanguage (str ''rust'')))"
proof -
  let ?os = "\<lambda>cmd :: command. Exited 1 (str ''FAIL'') (str ''exit status 1'')"
  let ?os' = "\<lambda>cmd :: command. Exited 0 (str ''ok'') []"
  have g: "str ''go'' = str ''go'' \<or> str ''go'' = str ''python''" by simp
  have r: "str ''rust'' \<noteq> str ''go'' \<and> str ''rust'' \<noteq> str ''python''" by simp
  from RunTests_results [of ?os "str ''/tmp/w''" "str ''go''"] g
  have 1: "RunTests ?os (str ''/tmp/w'') (str ''go'') =
        ([test_command (str ''go'') (str ''/tmp/w'')],
         Inr \<lparr>Success = exited_zero (?os (test_command (str ''go'') (str ''/tmp/w''))),
              Output = combined_output (?os (test_command (str ''go'') (str ''/tmp/w'')))\<rparr>)"
    by blast
  from RunTests_results [of ?os' "str ''/tmp/w''" "str ''rust''"] r
  have 2: "RunTests ?os' (str ''/tmp/w'') (str ''rust'') = ([], Inl (UnsupportedLanguage (str ''rust'')))"
    by blast
  from 1 2 show ?thesis by (simp add: test_command_def)
qed

text \<open>
  Claim C5 as stated fails when the test process cannot be started: \<open>RunTests\<close> returns no
  error but a \<open>TestResult\<close> with \<open>Success\<close> false and empty output.
\<close>

theorem RunTests_launch_failure_counterexample:
  "RunTests (\<lambda>cmd. StartFailed) (str ''/tmp/w'') (str ''go'')
     = ([(str ''go'', [str ''test'', str ''-v'', str ''./...''], str ''/tmp/w'')],
        Inr \<lparr>Success = False, Output = []\<rparr>)"
  by code_simp

end
